theory Spec2Isabelle
  imports
    Complex_Main
    "HOL-Library.Multiset"
    "HOL-Library.Stream"
    "HOL-Library.Sublist"
    "HOL-Library.Char_ord"
    "HOL-Library.List_Lexorder"
begin

section \<open>The batch loader of loader.py\<close>

text \<open>
  A shallow embedding of the class \<open>DataLoader\<close> of \<open>src/loader.py\<close>: the sample
  store filled by \<open>load\<close>, the index window of \<open>__getitem__\<close>, the batch assembly of
  \<open>getbatch\<close>, the two crops, the shuffle of \<open>on_epoch_end\<close> and the
  augmentation configuration of \<open>set_params\<close> and \<open>get_augmentation\<close>.
  Exceptions are values: a function that can raise returns \<open>error + 'a\<close>.
\<close>

subsection \<open>Exceptions\<close>

text \<open>
  The Python exceptions the loader can raise. The source defines no exception class of
  its own; every failure is one raised by Python or numpy:
  \<^item> \<open>AssertionError\<close>: the two \<open>assert\<close> statements;
  \<^item> \<open>IndexError\<close>: indexing a Python list out of range;
  \<^item> \<open>ValueError\<close>: \<open>np.random.randint\<close> on an empty range, \<open>np.zeros\<close> on a negative
    dimension, an assignment whose shapes do not broadcast (the crop failure);
  \<^item> \<open>TypeError\<close>: \<open>None // 2\<close>;
  \<^item> \<open>UnboundLocalError\<close>: reading \<open>crop_size\<close> where it was never assigned;
  \<^item> \<open>ZeroDivisionError\<close>: \<open>// 0\<close>;
  \<^item> \<open>OSError\<close>: \<open>np.load\<close> on a file it cannot open or read;
  \<^item> \<open>EOFError\<close>: \<open>np.load\<close> on an empty file; on a file whose contents are not an
    array file it raises \<open>ValueError\<close> (these three are the load failures).
\<close>

datatype error =
  AssertionError | IndexError | ValueError | TypeError | UnboundLocalError
  | ZeroDivisionError | OSError | EOFError

subsection \<open>Python lists: indexing and slicing\<close>

text \<open>
  \<open>xs[i]\<close> on a Python list of length \<open>n\<close>: the legal indices are \<open>-n, \<dots>, n - 1\<close>, a
  negative one counting from the end; any other raises \<open>IndexError\<close>.
\<close>

definition py_get :: "'a list \<Rightarrow> int \<Rightarrow> error + 'a" where
  "py_get xs i =
     (if i < - int (length xs) \<or> int (length xs) \<le> i then Inl IndexError
      else Inr (xs ! nat (if i < 0 then i + int (length xs) else i)))"

text \<open>
  One bound of a slice \<open>[a:b]\<close> over a sequence of length \<open>n\<close>: a negative bound counts
  from the end, and every bound is clamped into \<open>[0, n]\<close>. A slice never raises.
\<close>

definition slice_bound :: "nat \<Rightarrow> int \<Rightarrow> nat" where
  "slice_bound n i = nat (if i < 0 then max (i + int n) 0 else min i (int n))"

definition py_slice :: "int \<Rightarrow> int \<Rightarrow> 'a list \<Rightarrow> 'a list" where
  "py_slice a b xs =
     (let lo = slice_bound (length xs) a; hi = slice_bound (length xs) b
      in take (hi - lo) (drop lo xs))"

subsection \<open>Two-dimensional arrays\<close>

text \<open>
  A 2-D numpy array: its rows, and its number of columns (kept apart, since an array
  of shape \<open>(0, w)\<close> still has \<open>w\<close> columns). The element type is left open.
\<close>

record 'a ndarray =
  width :: nat
  cells :: "'a list list"

definition wf_array :: "'a ndarray \<Rightarrow> bool" where
  "wf_array a = list_all (\<lambda>r. length r = width a) (cells a)"

definition shape :: "'a ndarray \<Rightarrow> int \<times> int" where
  "shape a = (int (length (cells a)), int (width a))"

text \<open>\<open>img[a:b, c:d]\<close>\<close>

definition slice2 :: "int \<Rightarrow> int \<Rightarrow> int \<Rightarrow> int \<Rightarrow> 'a ndarray \<Rightarrow> 'a ndarray" where
  "slice2 a b c d img =
     \<lparr>width = slice_bound (width img) d - slice_bound (width img) c,
      cells = map (py_slice c d) (py_slice a b (cells img))\<rparr>"

text \<open>\<open>np.zeros((h, w))\<close> for \<open>h, w \<ge> 0\<close>.\<close>

definition zeros :: "nat \<Rightarrow> nat \<Rightarrow> ('a::zero) ndarray" where
  "zeros h w = \<lparr>width = w, cells = replicate h (replicate w 0)\<rparr>"

text \<open>
  The \<open>p\<close> by \<open>q\<close> window of an array whose top left cell is the cell \<open>(sx, sy)\<close>, read
  cell by cell: what a crop is expected to return.
\<close>

definition window :: "nat \<Rightarrow> nat \<Rightarrow> nat \<Rightarrow> nat \<Rightarrow> 'a ndarray \<Rightarrow> 'a ndarray" where
  "window sx sy p q img =
     \<lparr>width = q,
      cells = map (\<lambda>i. map (\<lambda>j. cells img ! (sx + i) ! (sy + j)) [0..<q]) [0..<p]\<rparr>"

subsection \<open>The pairing policy and the centre crop\<close>

text \<open>
  Lines 86 to 89 of \<open>getbatch\<close>: the index into \<open>self.ndct\<close> for the index \<open>ldct_i\<close>
  into \<open>self.ldct\<close>.
\<close>

definition pair_index :: "bool \<Rightarrow> int \<Rightarrow> int" where
  "pair_index train_pair ldct_i =
     (if train_pair then ldct_i
      else if ldct_i \<noteq> 0 then ldct_i - 1 else ldct_i + 1)"

text \<open>\<open>x//2 - (self.patch_size//2)\<close>: Python's \<open>//\<close> is floor division, as \<open>div\<close> on \<open>int\<close>.\<close>

definition center_start :: "int \<Rightarrow> int \<Rightarrow> int" where
  "center_start x p = x div 2 - p div 2"

text \<open>\<open>center_crop\<close>; with \<open>patch_size\<close> \<open>None\<close> the division raises.\<close>

definition center_crop :: "int option \<Rightarrow> 'a ndarray \<Rightarrow> error + 'a ndarray" where
  "center_crop patch_size img =
     (case patch_size of
        None \<Rightarrow> Inl TypeError
      | Some p \<Rightarrow>
          (let (x, y) = shape img;
               startx = center_start x p;
               starty = center_start y p
           in Inr (slice2 startx (startx + p) starty (starty + p) img)))"

subsection \<open>The pseudorandom generator\<close>

text \<open>
  The global generator is an explicit stream of raw draws, threaded through every
  function that uses randomness; each draw consumes the head of the stream.
  \<open>np.random.randint(low, high)\<close> returns an integer of \<open>[low, high)\<close> and raises
  \<open>ValueError\<close> when that range is empty; a uniform sample lies in \<open>[0, 1)\<close>.
\<close>

type_synonym rng = "nat stream"

definition randint :: "int \<Rightarrow> int \<Rightarrow> rng \<Rightarrow> error + int \<times> rng" where
  "randint low high g =
     (if high \<le> low then Inl ValueError
      else Inr (low + int (shd g) mod (high - low), stl g))"

definition random_sample :: "rng \<Rightarrow> real \<times> rng" where
  "random_sample g = (real (shd g mod 2 ^ 53) / 2 ^ 53, stl g)"

text \<open>
  \<open>np.random.shuffle\<close> on a 1-D array of length \<open>n\<close>: for \<open>i\<close> from \<open>n - 1\<close> down to 1,
  draw \<open>j\<close> in \<open>[0, i]\<close> and exchange the entries \<open>i\<close> and \<open>j\<close>.
\<close>

definition swap :: "nat \<Rightarrow> nat \<Rightarrow> 'a list \<Rightarrow> 'a list" where
  "swap i j xs = xs[i := xs ! j, j := xs ! i]"

fun shuffle_from :: "nat \<Rightarrow> 'a list \<Rightarrow> rng \<Rightarrow> 'a list \<times> rng" where
  "shuffle_from 0 xs g = (xs, g)"
| "shuffle_from (Suc i) xs g =
     shuffle_from i (swap (Suc i) (shd g mod Suc (Suc i)) xs) (stl g)"

definition shuffle :: "'a list \<Rightarrow> rng \<Rightarrow> 'a list \<times> rng" where
  "shuffle xs g = shuffle_from (length xs - 1) xs g"

subsection \<open>The random crop\<close>

text \<open>
  \<open>random_crop\<close>. The assertion compares the shapes; \<open>crop_size\<close> is assigned only when
  \<open>patch_size\<close> is an integer, so with \<open>None\<close> its first use raises; each \<open>randint\<close>
  raises when the array is not strictly larger than the patch.
\<close>

definition random_crop ::
  "int option \<Rightarrow> 'a ndarray \<Rightarrow> 'a ndarray \<Rightarrow> rng
     \<Rightarrow> error + ('a ndarray \<times> 'a ndarray) \<times> rng"
where
  "random_crop patch_size img msk g =
     (if shape img \<noteq> shape msk then Inl AssertionError
      else case patch_size of
        None \<Rightarrow> Inl UnboundLocalError
      | Some p \<Rightarrow>
          (let crop_size = (p, p); (h, w) = shape img
           in case randint 0 (h - fst crop_size) g of
                Inl e \<Rightarrow> Inl e
              | Inr (x, g1) \<Rightarrow>
                  (case randint 0 (w - snd crop_size) g1 of
                     Inl e \<Rightarrow> Inl e
                   | Inr (y, g2) \<Rightarrow>
                       Inr ((slice2 x (x + fst crop_size) y (y + snd crop_size) img,
                             slice2 x (x + fst crop_size) y (y + snd crop_size) msk),
                            g2))))"

subsection \<open>The augmentation pipeline\<close>

text \<open>
  The three transforms of \<open>get_augmentation\<close>, each built with its probability \<open>p\<close>
  (and the grid distortion with its \<open>num_steps\<close>). What a transform does to an image
  and its mask once it is triggered is outside the loader: it is a parameter \<open>fx\<close> of
  the model. \<open>Compose\<close> runs its transforms in order, each behind its own trial
  \<open>random() < p\<close>.
\<close>

datatype transform = GridDistortion int real | ElasticTransform real | CLAHE real

fun prob :: "transform \<Rightarrow> real" where
  "prob (GridDistortion num_steps p) = p"
| "prob (ElasticTransform p) = p"
| "prob (CLAHE p) = p"

type_synonym 'a effect =
  "transform \<Rightarrow> 'a ndarray \<times> 'a ndarray \<Rightarrow> rng \<Rightarrow> ('a ndarray \<times> 'a ndarray) \<times> rng"

fun compose_call ::
  "'a effect \<Rightarrow> transform list \<Rightarrow> 'a ndarray \<times> 'a ndarray \<Rightarrow> rng
     \<Rightarrow> ('a ndarray \<times> 'a ndarray) \<times> rng"
where
  "compose_call fx [] d g = (d, g)"
| "compose_call fx (t # ts) d g =
     (let (u, g1) = random_sample g;
          (d1, g2) = (if u < prob t then fx t d g1 else (d, g1))
      in compose_call fx ts d1 g2)"

subsection \<open>The loader\<close>

text \<open>The attributes of a \<open>DataLoader\<close> object.\<close>

record 'a loader =
  mode :: string
  data_path :: string
  valid_patient :: string
  test_patient :: string
  batch_size :: int
  train_pair :: bool
  patch_size :: "int option"
  ldct :: "'a ndarray list"
  ndct :: "'a ndarray list"
  input_size :: "int \<times> int"
  indexes :: "int list"
  prob_distort :: real
  prob_elastic :: real
  prob_histeq :: real
  aug :: "transform list"

text \<open>\<open>__len__\<close>\<close>

definition len :: "'a loader \<Rightarrow> error + int" where
  "len s =
     (if batch_size s = 0 then Inl ZeroDivisionError
      else Inr (int (length (ldct s)) div batch_size s))"

text \<open>\<open>on_epoch_end\<close>\<close>

definition on_epoch_end :: "'a loader \<Rightarrow> rng \<Rightarrow> 'a loader \<times> rng" where
  "on_epoch_end s g =
     (if mode s = ''train''
      then (let (xs, g1) = shuffle (indexes s) g in (s\<lparr>indexes := xs\<rparr>, g1))
      else (s, g))"

text \<open>\<open>set_params\<close> and \<open>get_augmentation\<close>\<close>

definition set_params :: "'a loader \<Rightarrow> real \<Rightarrow> real \<Rightarrow> real \<Rightarrow> 'a loader" where
  "set_params s grid_distort elastic_deform histeq =
     s\<lparr>prob_distort := grid_distort, prob_elastic := elastic_deform, prob_histeq := histeq\<rparr>"

definition get_augmentation :: "'a loader \<Rightarrow> 'a loader" where
  "get_augmentation s =
     s\<lparr>aug := [GridDistortion 3 (prob_distort s),
                ElasticTransform (prob_elastic s),
                CLAHE (prob_histeq s)]\<rparr>"

subsection \<open>Batch assembly\<close>

text \<open>
  \<open>bx[i] = v\<close> on a 3-D array: \<open>v\<close> is broadcast to the shape of the slot, which needs
  each of its dimensions to be the slot's or 1, and raises \<open>ValueError\<close> otherwise.

  The batch arrays are made with \<open>dtype=np.float32\<close>, and numpy casts to that type what
  is assigned into them. The element type \<open>'a\<close> of the model is the element type of the
  batch: the arrays of the store are taken to hold \<open>float32\<close> values already, on which
  the cast changes nothing, and what the cast does to a store of another type (the
  rounding of \<open>float64\<close> values or of integers beyond \<open>2^24\<close>) is outside the model. No
  statement below is about the value of a cell that comes from the store other than
  through equalities between batches and on the small integers of the examples, all of
  them \<open>float32\<close> values.
\<close>

definition broadcast_to :: "nat \<Rightarrow> nat \<Rightarrow> 'a ndarray \<Rightarrow> error + 'a ndarray" where
  "broadcast_to h w v =
     (let r = length (cells v); c = width v
      in if (r = h \<or> r = 1) \<and> (c = w \<or> c = 1)
         then Inr \<lparr>width = w,
                   cells = map (\<lambda>a. map (\<lambda>b. cells v ! (if r = 1 then 0 else a)
                                                     ! (if c = 1 then 0 else b)) [0..<w])
                             [0..<h]\<rparr>
         else Inl ValueError)"

definition assign :: "'a ndarray list \<Rightarrow> nat \<Rightarrow> 'a ndarray \<Rightarrow> error + 'a ndarray list" where
  "assign batch i v =
     (if length batch \<le> i then Inl IndexError
      else case broadcast_to (length (cells (batch ! i))) (width (batch ! i)) v of
             Inl e \<Rightarrow> Inl e
           | Inr v1 \<Rightarrow> Inr (batch[i := v1]))"

text \<open>\<open>a[..., np.newaxis]\<close>: every cell becomes an axis of length one.\<close>

definition add_axis :: "'a ndarray \<Rightarrow> 'a list ndarray" where
  "add_axis a = \<lparr>width = width a, cells = map (map (\<lambda>v. [v])) (cells a)\<rparr>"

definition newaxis :: "'a ndarray list \<Rightarrow> 'a list ndarray list" where
  "newaxis batch = map add_axis batch"

text \<open>
  What \<open>getbatch\<close> does with one sample (lines 86 to 99): the pairing policy, the two
  reads of the store, then the augmentation and the random crop in train mode and the
  two centre crops otherwise.
\<close>

definition get_sample ::
  "'a effect \<Rightarrow> 'a loader \<Rightarrow> int \<Rightarrow> rng \<Rightarrow> error + ('a ndarray \<times> 'a ndarray) \<times> rng"
where
  "get_sample fx s ldct_i g =
     (let ndct_i = pair_index (train_pair s) ldct_i
      in case py_get (ldct s) ldct_i of
           Inl e \<Rightarrow> Inl e
         | Inr l \<Rightarrow>
             (case py_get (ndct s) ndct_i of
                Inl e \<Rightarrow> Inl e
              | Inr n \<Rightarrow>
                  (if mode s = ''train''
                   then (let (d, g1) = compose_call fx (aug s) (l, n) g
                         in random_crop (patch_size s) (fst d) (snd d) g1)
                   else (case center_crop (patch_size s) l of
                           Inl e \<Rightarrow> Inl e
                         | Inr l1 \<Rightarrow>
                             (case center_crop (patch_size s) n of
                                Inl e \<Rightarrow> Inl e
                              | Inr n1 \<Rightarrow> Inr ((l1, n1), g))))))"

text \<open>The loop of \<open>getbatch\<close> over \<open>enumerate(indexes)\<close>, from position \<open>i\<close> on.\<close>

fun getbatch_loop ::
  "'a effect \<Rightarrow> 'a loader \<Rightarrow> nat \<Rightarrow> int list \<Rightarrow> 'a ndarray list \<Rightarrow> 'a ndarray list \<Rightarrow> rng
     \<Rightarrow> error + ('a ndarray list \<times> 'a ndarray list) \<times> rng"
where
  "getbatch_loop fx s i [] bx bY g = Inr ((bx, bY), g)"
| "getbatch_loop fx s i (ldct_i # rest) bx bY g =
     (case get_sample fx s ldct_i g of
        Inl e \<Rightarrow> Inl e
      | Inr ((l, n), g1) \<Rightarrow>
          (case assign bx i l of
             Inl e \<Rightarrow> Inl e
           | Inr bx1 \<Rightarrow>
               (case assign bY i n of
                  Inl e \<Rightarrow> Inl e
                | Inr bY1 \<Rightarrow> getbatch_loop fx s (Suc i) rest bx1 bY1 g1)))"

text \<open>\<open>getbatch\<close>; \<open>np.zeros\<close> raises on a negative dimension.\<close>

definition getbatch ::
  "'a effect \<Rightarrow> ('a::zero) loader \<Rightarrow> int list \<Rightarrow> rng
     \<Rightarrow> error + ('a list ndarray list \<times> 'a list ndarray list) \<times> rng"
where
  "getbatch fx s idxs g =
     (let (h, w) = input_size s
      in if batch_size s < 0 \<or> h < 0 \<or> w < 0 then Inl ValueError
         else (let bx = replicate (nat (batch_size s)) (zeros (nat h) (nat w));
                   bY = replicate (nat (batch_size s)) (zeros (nat h) (nat w))
               in case getbatch_loop fx s 0 idxs bx bY g of
                    Inl e \<Rightarrow> Inl e
                  | Inr ((bx1, bY1), g1) \<Rightarrow> Inr ((newaxis bx1, newaxis bY1), g1)))"

text \<open>\<open>__getitem__\<close>: the window is a slice of the index array, then \<open>getbatch\<close>.\<close>

definition batch_window :: "'a loader \<Rightarrow> int \<Rightarrow> int list" where
  "batch_window s idx =
     py_slice (idx * batch_size s) ((idx + 1) * batch_size s) (indexes s)"

definition getitem ::
  "'a effect \<Rightarrow> ('a::zero) loader \<Rightarrow> int \<Rightarrow> rng
     \<Rightarrow> error + ('a list ndarray list \<times> 'a list ndarray list) \<times> rng"
where
  "getitem fx s idx g = getbatch fx s (batch_window s idx) g"

subsection \<open>Construction\<close>

text \<open>
  The directory \<open>data_path\<close> is a list of entries, each a file name with what
  \<open>np.load\<close> makes of the file: the array it returns, or the exception it raises
  (\<open>OSError\<close>, \<open>ValueError\<close> or \<open>EOFError\<close>, by what is wrong with the file).
\<close>

datatype 'a npy_file = Npy "'a ndarray" | Unreadable error

type_synonym 'a path = "string \<times> 'a npy_file"

definition glob :: "string \<Rightarrow> 'a path list \<Rightarrow> 'a path list" where
  "glob ending dir = filter (\<lambda>f. suffix ending (fst f)) dir"

definition np_load :: "'a path \<Rightarrow> error + 'a ndarray" where
  "np_load f = (case snd f of Npy a \<Rightarrow> Inr a | Unreadable e \<Rightarrow> Inl e)"

text \<open>A list comprehension \<open>[np.load(str(f)) for f in paths if keep(f)]\<close>.\<close>

fun load_list :: "('a path \<Rightarrow> bool) \<Rightarrow> 'a path list \<Rightarrow> error + 'a ndarray list" where
  "load_list keep [] = Inr []"
| "load_list keep (f # fs) =
     (if keep f
      then (case np_load f of
              Inl e \<Rightarrow> Inl e
            | Inr a \<Rightarrow> (case load_list keep fs of Inl e \<Rightarrow> Inl e | Inr as \<Rightarrow> Inr (a # as)))
      else load_list keep fs)"

text \<open>
  The condition of the comprehensions of \<open>load\<close>, which is the same for the sources and
  the targets of a mode; \<open>tag in f.name\<close> is containment as a contiguous substring.
\<close>

definition selected :: "string \<Rightarrow> string \<Rightarrow> string \<Rightarrow> 'a path \<Rightarrow> bool" where
  "selected md valid_p test_p f =
     (if md = ''train'' then \<not> sublist valid_p (fst f) \<and> \<not> sublist test_p (fst f)
      else if md = ''valid'' then sublist valid_p (fst f)
      else sublist test_p (fst f))"

text \<open>\<open>load\<close>: the sources are read first, then the targets; nothing compares the two.\<close>

definition load ::
  "string \<Rightarrow> string \<Rightarrow> string \<Rightarrow> 'a path list \<Rightarrow> 'a path list
     \<Rightarrow> error + 'a ndarray list \<times> 'a ndarray list"
where
  "load md valid_p test_p ldct_paths ndct_paths =
     (case load_list (selected md valid_p test_p) ldct_paths of
        Inl e \<Rightarrow> Inl e
      | Inr ls \<Rightarrow>
          (case load_list (selected md valid_p test_p) ndct_paths of
             Inl e \<Rightarrow> Inl e
           | Inr ns \<Rightarrow> Inr (ls, ns)))"

text \<open>
  \<open>__init__\<close>. The attributes \<open>prob_*\<close> and \<open>aug\<close> do not exist before \<open>set_params\<close> and
  \<open>get_augmentation\<close> run; the record is built with them empty and both calls follow,
  in the order of the source.
\<close>

definition init ::
  "string \<Rightarrow> string \<Rightarrow> 'a path list \<Rightarrow> string \<Rightarrow> string \<Rightarrow> int \<Rightarrow> bool \<Rightarrow> int option \<Rightarrow> rng
     \<Rightarrow> error + 'a loader \<times> rng"
where
  "init md path dir valid_p test_p bsize pair patch g =
     (if md \<notin> set [''train'', ''valid'', ''test''] then Inl AssertionError
      else
        (let ldct_paths = sort_key fst (glob ''_ldct.npy'' dir);
             ndct_paths = sort_key fst (glob ''_ndct.npy'' dir)
         in case load md valid_p test_p ldct_paths ndct_paths of
              Inl e \<Rightarrow> Inl e
            | Inr (ls, ns) \<Rightarrow>
                (case (case patch of
                         Some p \<Rightarrow> Inr (p, p)
                       | None \<Rightarrow> (case py_get ls 0 of Inl e \<Rightarrow> Inl e | Inr a \<Rightarrow> Inr (shape a))) of
                   Inl e \<Rightarrow> Inl e
                 | Inr isize \<Rightarrow>
                     (let s0 = \<lparr>mode = md, data_path = path, valid_patient = valid_p,
                                test_patient = test_p, batch_size = bsize, train_pair = pair,
                                patch_size = patch, ldct = ls, ndct = ns, input_size = isize,
                                indexes = map int [0..<length ls],
                                prob_distort = 0, prob_elastic = 0, prob_histeq = 0, aug = []\<rparr>;
                          (s1, g1) = on_epoch_end s0 g
                      in Inr (get_augmentation (set_params s1 0 0 0), g1)))))"

subsection \<open>Example arrays\<close>

definition img44 :: "int ndarray" where
  "img44 = \<lparr>width = 4, cells = [[0, 1, 2, 3], [4, 5, 6, 7], [8, 9, 10, 11], [12, 13, 14, 15]]\<rparr>"

definition img22 :: "int ndarray" where
  "img22 = \<lparr>width = 2, cells = [[1, 2], [3, 4]]\<rparr>"

text \<open>
  A loader as the constructor leaves it over a store that is already loaded, with an
  integer patch size: the identity permutation and the pipeline of probabilities 0.
  (In train mode the constructor also shuffles the permutation once.)
\<close>

definition mk_loader ::
  "string \<Rightarrow> int \<Rightarrow> bool \<Rightarrow> int \<Rightarrow> 'a ndarray list \<Rightarrow> 'a ndarray list \<Rightarrow> 'a loader"
where
  "mk_loader md bsize pair p ls ns =
     \<lparr>mode = md, data_path = ''./prep/'', valid_patient = ''L333'', test_patient = ''L506'',
      batch_size = bsize, train_pair = pair, patch_size = Some p, ldct = ls, ndct = ns,
      input_size = (p, p), indexes = map int [0..<length ls],
      prob_distort = 0, prob_elastic = 0, prob_histeq = 0,
      aug = [GridDistortion 3 0, ElasticTransform 0, CLAHE 0]\<rparr>"

definition msk44 :: "int ndarray" where
  "msk44 = \<lparr>width = 4, cells = [[10, 11, 12, 13], [14, 15, 16, 17], [18, 19, 20, 21], [22, 23, 24, 25]]\<rparr>"

text \<open>
  One pass over an epoch: the windows of the positions \<open>0, \<dots>, len - 1\<close>, in order.
\<close>

definition epoch_pass :: "'a loader \<Rightarrow> int list" where
  "epoch_pass s =
     (case len s of
        Inl e \<Rightarrow> []
      | Inr k \<Rightarrow> concat (map (\<lambda>p. batch_window s (int p)) [0..<nat k]))"

definition store17 :: "int ndarray list" where
  "store17 = replicate 17 img22"

text \<open>The index sequence holds each integer of \<open>[0, n)\<close> exactly once.\<close>

definition is_permutation :: "int list \<Rightarrow> nat \<Rightarrow> bool" where
  "is_permutation xs n = (mset xs = mset (map int [0..<n]))"

definition store3 :: "int ndarray list" where
  "store3 = [img44, img44, img44]"

text \<open>Example loaders: a transform effect that changes nothing, and small stores.\<close>

definition keep_effect :: "int effect" where
  "keep_effect t d g = (d, g)"

definition store1 :: "int ndarray list" where
  "store1 = [img44]"

definition store2 :: "int ndarray list" where
  "store2 = [img44, msk44]"

text \<open>
  A store that fits its loader: evaluation mode with paired targets, as many targets
  as sources, indices within the store, and every array well formed and no smaller
  than the integer patch size.
\<close>

definition store_fits :: "'a loader \<Rightarrow> bool" where
  "store_fits s =
     (mode s \<noteq> ''train'' \<and> train_pair s \<and> 0 < batch_size s
      \<and> length (ndct s) = length (ldct s)
      \<and> list_all (\<lambda>j. 0 \<le> j \<and> j < int (length (ldct s))) (indexes s)
      \<and> (case patch_size s of
            None \<Rightarrow> False
          | Some p \<Rightarrow>
              0 \<le> p \<and> input_size s = (p, p)
              \<and> list_all (\<lambda>a. wf_array a \<and> p \<le> fst (shape a) \<and> p \<le> snd (shape a))
                    (ldct s @ ndct s)))"

text \<open>
  A train-mode loader over one sample, and a transform effect that reverses the rows of
  image and mask.
\<close>

definition loader_train :: "int loader" where
  "loader_train = mk_loader ''train'' 1 True 2 [img44] [msk44]"

definition flip_effect :: "int effect" where
  "flip_effect t d g =
     ((fst d\<lparr>cells := rev (cells (fst d))\<rparr>, snd d\<lparr>cells := rev (cells (snd d))\<rparr>), g)"

text \<open>
  A directory whose \<open>L333\<close> files are two sources and one target; the file of \<open>L506\<close>
  cannot be opened, and the last entry is not an array file.
\<close>

definition dir_unaligned :: "int path list" where
  "dir_unaligned =
     [(''L333_001_ldct.npy'', Npy img44), (''L333_000_ndct.npy'', Npy msk44),
      (''L333_000_ldct.npy'', Npy img22), (''L506_000_ldct.npy'', Unreadable OSError),
      (''notes.txt'', Unreadable ValueError)]"

section \<open>Slices\<close>

lemma slice_bound_le: "slice_bound n i \<le> n"
  by (cases "i < 0") (simp_all add: slice_bound_def)

lemma slice_bound_in_range: "0 \<le> i \<Longrightarrow> i \<le> int n \<Longrightarrow> slice_bound n i = nat i"
  by (simp add: slice_bound_def)

lemma length_py_slice:
  "length (py_slice a b xs) = slice_bound (length xs) b - slice_bound (length xs) a"
  using slice_bound_le [of "length xs" b]
  by (simp add: py_slice_def Let_def)

lemma length_py_slice_le: "length (py_slice a b xs) \<le> length xs"
  using slice_bound_le [of "length xs" b] by (simp add: length_py_slice)

lemma set_py_slice: "set (py_slice a b xs) \<subseteq> set xs"
  unfolding py_slice_def Let_def
  by (meson set_take_subset set_drop_subset subset_trans)

lemma take_drop_as_map:
  "k + n \<le> length xs \<Longrightarrow> take n (drop k xs) = map (\<lambda>i. xs ! (k + i)) [0..<n]"
  by (rule nth_equalityI) simp_all

lemma py_slice_in_range:
  assumes "0 \<le> a" and "0 \<le> p" and "a + p \<le> int (length xs)"
  shows "py_slice a (a + p) xs = map (\<lambda>i. xs ! (nat a + i)) [0..<nat p]"
proof -
  have lo: "slice_bound (length xs) a = nat a"
    using assms by (simp add: slice_bound_in_range)
  have hi: "slice_bound (length xs) (a + p) = nat a + nat p"
    using assms by (simp add: slice_bound_in_range nat_add_distrib)
  have "nat a + nat p \<le> length xs"
    using assms by linarith
  then show ?thesis
    by (simp add: py_slice_def lo hi take_drop_as_map)
qed

lemma slice2_in_range:
  assumes wf: "wf_array img"
    and a: "0 \<le> a" "0 \<le> p" "a + p \<le> int (length (cells img))"
    and c: "0 \<le> c" "0 \<le> q" "c + q \<le> int (width img)"
  shows "slice2 a (a + p) c (c + q) img = window (nat a) (nat c) (nat p) (nat q) img"
proof -
  have rows: "py_slice a (a + p) (cells img)
      = map (\<lambda>i. cells img ! (nat a + i)) [0..<nat p]"
    using a by (rule py_slice_in_range)
  have bound: "nat a + nat p \<le> length (cells img)"
    using a by linarith
  have cols: "py_slice c (c + q) (cells img ! (nat a + i))
      = map (\<lambda>j. cells img ! (nat a + i) ! (nat c + j)) [0..<nat q]" if "i < nat p" for i
  proof -
    have "nat a + i < length (cells img)"
      using that bound by linarith
    then have "length (cells img ! (nat a + i)) = width img"
      using wf by (simp add: wf_array_def list_all_length)
    then show ?thesis
      using c by (simp add: py_slice_in_range)
  qed
  have w: "slice_bound (width img) (c + q) - slice_bound (width img) c = nat q"
    using c by (simp add: slice_bound_in_range nat_add_distrib)
  show ?thesis
    by (simp add: slice2_def window_def rows w cols)
qed

section \<open>The pairing policy\<close>

text \<open>
  Claim C5. The target index of a source index \<open>j\<close> is \<open>j\<close> itself when \<open>train_pair\<close> is
  true; when it is false, it is \<open>j - 1\<close> for \<open>j\<close> other than 0 and \<open>1\<close> for \<open>j = 0\<close>. So
  without pairing 0 maps to 1 and 5 maps to 4.
\<close>

theorem pair_index_policy:
  "pair_index True j = j
   \<and> (j \<noteq> 0 \<longrightarrow> pair_index False j = j - 1)
   \<and> pair_index False 0 = 0 + 1
   \<and> pair_index False 0 = 1
   \<and> pair_index False 5 = 4"
  by (simp add: pair_index_def)

theorem pair_index_policy_witness:
  "(7::int) \<noteq> 0 \<and> pair_index True 7 = 7 \<and> pair_index False 7 = 6"
  using pair_index_policy [of 7] by simp

section \<open>The centre crop\<close>

lemma shape_window: "shape (window sx sy p q img) = (int p, int q)"
  by (simp add: shape_def window_def)

lemma shape_slice2_le:
  "fst (shape (slice2 a b c d img)) \<le> fst (shape img)
   \<and> snd (shape (slice2 a b c d img)) \<le> snd (shape img)"
  using slice_bound_le [of "width img" d]
  by (simp add: shape_def slice2_def length_py_slice_le)

text \<open>
  Claim C7. With the window in bounds, the centre crop of an array of shape \<open>(X, Y)\<close>
  is the \<open>P\<close> by \<open>P\<close> window that starts at \<open>X div 2 - P div 2\<close> and
  \<open>Y div 2 - P div 2\<close>. For an odd \<open>P\<close> that start is \<open>(X - P + 1) div 2\<close>: it is
  \<open>(X - P) div 2\<close> when \<open>X\<close> is odd and one more than that when \<open>X\<close> is even.
\<close>

theorem center_crop_window:
  assumes "wf_array img" and "shape img = (X, Y)" and "0 \<le> P"
    and "0 \<le> center_start X P" and "center_start X P + P \<le> X"
    and "0 \<le> center_start Y P" and "center_start Y P + P \<le> Y"
  shows "center_crop (Some P) img
           = Inr (window (nat (center_start X P)) (nat (center_start Y P)) (nat P) (nat P) img)
         \<and> center_start X P = X div 2 - P div 2
         \<and> center_start Y P = Y div 2 - P div 2
         \<and> shape (window (nat (center_start X P)) (nat (center_start Y P)) (nat P) (nat P) img)
             = (P, P)
         \<and> (odd P \<longrightarrow> center_start X P = (X - P + 1) div 2)
         \<and> (odd P \<and> odd X \<longrightarrow> center_start X P = (X - P) div 2)
         \<and> (odd P \<and> even X \<longrightarrow> center_start X P = (X - P) div 2 + 1)"
proof -
  have X: "X = int (length (cells img))" and Y: "Y = int (width img)"
    using assms(2) by (simp_all add: shape_def)
  have crop: "center_crop (Some P) img
      = Inr (slice2 (center_start X P) (center_start X P + P)
               (center_start Y P) (center_start Y P + P) img)"
    using assms(2) by (simp add: center_crop_def Let_def)
  have win: "slice2 (center_start X P) (center_start X P + P)
               (center_start Y P) (center_start Y P + P) img
      = window (nat (center_start X P)) (nat (center_start Y P)) (nat P) (nat P) img"
    using assms by (intro slice2_in_range) (simp_all add: X Y)
  have sh: "shape (window (nat (center_start X P)) (nat (center_start Y P)) (nat P) (nat P) img)
      = (P, P)"
    using assms(3) by (simp add: shape_window)
  have o1: "odd P \<longrightarrow> center_start X P = (X - P + 1) div 2"
    unfolding center_start_def by (auto elim!: oddE) 
  have o2: "odd P \<and> odd X \<longrightarrow> center_start X P = (X - P) div 2"
    unfolding center_start_def by (auto elim!: oddE)
  have o3: "odd P \<and> even X \<longrightarrow> center_start X P = (X - P) div 2 + 1"
    unfolding center_start_def by (auto elim!: oddE evenE)
  show ?thesis
    using crop win sh o1 o2 o3 by (simp add: center_start_def)
qed

lemma wf_img44: "wf_array img44" by (simp add: wf_array_def img44_def)
lemma shape_img44: "shape img44 = (4, 4)" by (simp add: shape_def img44_def)

theorem center_crop_window_witness:
  "wf_array img44 \<and> shape img44 = (4, 4) \<and> (0::int) \<le> 3
   \<and> 0 \<le> center_start 4 3 \<and> center_start 4 3 + 3 \<le> 4
   \<and> odd (3::int) \<and> even (4::int)
   \<and> center_crop (Some 3) img44
       = Inr \<lparr>width = 3, cells = [[5, 6, 7], [9, 10, 11], [13, 14, 15]]\<rparr>
   \<and> center_start 4 3 = 1"
proof -
  have h: "(0::int) \<le> 3" "0 \<le> center_start 4 3" "center_start 4 3 + 3 \<le> 4"
    by (simp_all add: center_start_def)
  have w: "window (nat (center_start 4 3)) (nat (center_start 4 3)) (nat 3) (nat 3) img44
      = \<lparr>width = 3, cells = [[5, 6, 7], [9, 10, 11], [13, 14, 15]]\<rparr>"
    by code_simp
  show ?thesis
    using center_crop_window [OF wf_img44 shape_img44 h(1) h(2) h(3) h(2) h(3)] h w
    by (simp add: wf_img44 shape_img44)
qed

text \<open>
  The claim's second half fails for an even \<open>X\<close>: with \<open>X = 4\<close> and \<open>P = 3\<close> the window
  is in bounds and starts at 1, while \<open>(X - P) div 2\<close> is 0.
\<close>

theorem center_start_odd_counterexample:
  "odd (3::int) \<and> 0 \<le> center_start 4 3 \<and> center_start 4 3 + 3 \<le> 4
   \<and> center_start 4 3 = 1 \<and> (4 - 3) div 2 = (0::int)
   \<and> center_start 4 3 \<noteq> (4 - 3) div 2"
  by (simp add: center_start_def)

lemma py_slice_to_end:
  assumes "int (length xs) \<le> b"
  shows "py_slice a b xs = drop (slice_bound (length xs) a) xs"
proof -
  have "slice_bound (length xs) b = length xs"
    using assms by (simp add: slice_bound_def)
  then show ?thesis
    by (simp add: py_slice_def)
qed

lemma center_stop_past_end:
  assumes "0 \<le> X" and "X < P"
  shows "X \<le> center_start X P + P"
  using assms unfolding center_start_def by linarith

lemma length_to_end:
  assumes "int n = X" and "X < P"
  shows "int (n - slice_bound n (center_start X P))
           = (if center_start X P < 0 then min (int n) (- center_start X P) else int n)"
proof -
  have "center_start X P \<le> 0"
    using assms unfolding center_start_def by linarith
  then show ?thesis
    using slice_bound_le [of n "center_start X P"]
    by (auto simp: slice_bound_def min_def max_def)
qed

text \<open>
  Claim C4, as the code has it. On an array smaller than the patch in some dimension
  the centre crop raises nothing: it returns the slice
  \<open>img[startx:startx+P, starty:starty+P]\<close> under Python's slice rules, where a negative
  start counts from the end and every bound is clamped. That slice has at most \<open>X\<close> rows
  and at most \<open>Y\<close> columns, hence is not of shape \<open>(P, P)\<close>. In a dimension smaller than
  \<open>P\<close> the stop \<open>start + P\<close> is past the end, so the slice runs from the (wrapped) start
  to the end of the array: it keeps all \<open>X\<close> rows when \<open>startx = 0\<close>, and the last
  \<open>min(X, -startx)\<close> rows when \<open>startx < 0\<close>; likewise for the columns.
\<close>

theorem center_crop_small:
  assumes "shape img = (X, Y)" and "X < P \<or> Y < P"
  shows "\<exists>a. center_crop (Some P) img = Inr a
           \<and> a = slice2 (center_start X P) (center_start X P + P)
                   (center_start Y P) (center_start Y P + P) img
           \<and> fst (shape a) \<le> X \<and> snd (shape a) \<le> Y \<and> shape a \<noteq> (P, P)
           \<and> (X < P \<longrightarrow>
                 cells a = map (py_slice (center_start Y P) (center_start Y P + P))
                             (drop (slice_bound (length (cells img)) (center_start X P))
                                (cells img))
                 \<and> fst (shape a)
                     = (if center_start X P < 0 then min X (- center_start X P) else X))
           \<and> (Y < P \<longrightarrow>
                 snd (shape a)
                   = (if center_start Y P < 0 then min Y (- center_start Y P) else Y)
                 \<and> (wf_array img \<longrightarrow>
                      cells a = map (drop (slice_bound (width img) (center_start Y P)))
                                  (py_slice (center_start X P) (center_start X P + P)
                                     (cells img))))"
proof -
  let ?sx = "center_start X P" and ?sy = "center_start Y P"
  let ?a = "slice2 ?sx (?sx + P) ?sy (?sy + P) img"
  have X: "X = int (length (cells img))" and Y: "Y = int (width img)"
    using assms(1) by (simp_all add: shape_def)
  have crop: "center_crop (Some P) img = Inr ?a"
    using assms(1) by (simp add: center_crop_def Let_def)
  have le: "fst (shape ?a) \<le> X \<and> snd (shape ?a) \<le> Y"
    using shape_slice2_le [of ?sx "?sx + P" ?sy "?sy + P" img] assms(1)
    by simp
  then have ne: "shape ?a \<noteq> (P, P)"
    using assms(2) by auto
  have rows: "cells ?a = map (py_slice ?sy (?sy + P))
                 (drop (slice_bound (length (cells img)) ?sx) (cells img))
      \<and> fst (shape ?a) = (if ?sx < 0 then min X (- ?sx) else X)"
    if small: "X < P"
  proof -
    have "int (length (cells img)) \<le> ?sx + P"
      using center_stop_past_end [of X P] small X by simp
    then have r: "py_slice ?sx (?sx + P) (cells img)
        = drop (slice_bound (length (cells img)) ?sx) (cells img)"
      by (rule py_slice_to_end)
    have "int (length (cells img) - slice_bound (length (cells img)) ?sx)
        = (if ?sx < 0 then min (int (length (cells img))) (- ?sx) else int (length (cells img)))"
      using small X by (intro length_to_end) simp_all
    then show ?thesis
      using r X by (simp add: slice2_def shape_def)
  qed
  have cols: "snd (shape ?a) = (if ?sy < 0 then min Y (- ?sy) else Y)
      \<and> (wf_array img \<longrightarrow>
            cells ?a = map (drop (slice_bound (width img) ?sy))
                         (py_slice ?sx (?sx + P) (cells img)))"
    if small: "Y < P"
  proof -
    have stop: "Y \<le> ?sy + P"
      using center_stop_past_end [of Y P] small Y by simp
    have hi: "slice_bound (width img) (?sy + P) = width img"
      using stop Y by (simp add: slice_bound_def)
    have "int (width img - slice_bound (width img) ?sy)
        = (if ?sy < 0 then min (int (width img)) (- ?sy) else int (width img))"
      using small Y by (intro length_to_end) simp_all
    then have w: "snd (shape ?a) = (if ?sy < 0 then min Y (- ?sy) else Y)"
      using Y hi by (simp add: slice2_def shape_def)
    have c: "cells ?a = map (drop (slice_bound (width img) ?sy))
                         (py_slice ?sx (?sx + P) (cells img))"
      if wf: "wf_array img"
    proof -
      have "py_slice ?sy (?sy + P) r = drop (slice_bound (width img) ?sy) r"
        if "r \<in> set (py_slice ?sx (?sx + P) (cells img))" for r
      proof -
        have "r \<in> set (cells img)"
          using that set_py_slice [of ?sx "?sx + P" "cells img"] by (rule subsetD [rotated])
        then have l: "length r = width img"
          using wf by (simp add: wf_array_def list_all_iff)
        have "int (length r) \<le> ?sy + P"
          using stop Y l by simp
        then show ?thesis
          using l py_slice_to_end [of r "?sy + P" ?sy] by simp
      qed
      then show ?thesis
        by (simp add: slice2_def)
    qed
    show ?thesis
      using w c by blast
  qed
  show ?thesis
    using crop le ne rows cols by blast
qed

lemma crop_img44_6:
  "slice2 (center_start 4 6) (center_start 4 6 + 6) (center_start 4 6) (center_start 4 6 + 6)
     img44 = \<lparr>width = 1, cells = [[15]]\<rparr>"
  by code_simp

theorem center_crop_small_witness:
  "shape img44 = (4, 4) \<and> ((4::int) < 6 \<or> (4::int) < 6)
   \<and> center_start 4 6 = - 1
   \<and> center_crop (Some 6) img44 = Inr \<lparr>width = 1, cells = [[15]]\<rparr>
   \<and> shape \<lparr>width = 1, cells = [[15::int]]\<rparr> = (1, 1)"
proof -
  have c: "(4::int) < 6 \<or> (4::int) < 6" by simp
  have s: "shape \<lparr>width = 1, cells = [[15::int]]\<rparr> = (1, 1)"
    by (simp add: shape_def)
  have "center_crop (Some 6) img44 = Inr \<lparr>width = 1, cells = [[15]]\<rparr>"
    using center_crop_small [OF shape_img44 c] by (simp add: crop_img44_6)
  then show ?thesis
    using s by (simp add: shape_img44 center_start_def)
qed

text \<open>
  The claim as written fails: the centre crop of a 2 by 2 array with patch size 4
  returns the 1 by 1 array of its last cell.
\<close>

theorem center_crop_small_counterexample:
  "shape img22 = (2, 2) \<and> (2::int) < 4
   \<and> center_crop (Some 4) img22 = Inr \<lparr>width = 1, cells = [[4]]\<rparr>"
  by code_simp

section \<open>The random crop\<close>

lemma randint_in_range:
  assumes "low < high"
  shows "\<exists>x. randint low high g = Inr (x, stl g) \<and> low \<le> x \<and> x < high"
proof -
  define r where "r = int (shd g) mod (high - low)"
  have r: "0 \<le> r" "r < high - low"
    using assms by (simp_all add: r_def)
  have "randint low high g = Inr (low + r, stl g)"
    using assms by (simp add: randint_def r_def)
  moreover have "low \<le> low + r" and "low + r < high"
    using r by linarith+
  ultimately show ?thesis by blast
qed

lemma randint_empty: "high \<le> low \<Longrightarrow> randint low high g = Inl ValueError"
  by (simp add: randint_def)

text \<open>
  Claim C8. For two arrays of the same shape \<open>(H, W)\<close> with \<open>H > P\<close> and \<open>W > P\<close>, the
  random crop makes two draws, \<open>x = randint(0, H - P)\<close> and then \<open>y = randint(0, W - P)\<close>
  on the generator the first draw leaves, so \<open>x\<close> lies in \<open>[0, H - P)\<close> and \<open>y\<close> in
  \<open>[0, W - P)\<close>; it returns the \<open>P\<close> by \<open>P\<close> windows of both arrays at that one drawn
  offset \<open>(x, y)\<close>, and the generator after the two draws. When \<open>H \<le> P\<close> or \<open>W \<le> P\<close>
  it fails, with the \<open>ValueError\<close> that \<open>randint\<close> raises on the empty range.
\<close>

theorem random_crop_window:
  assumes "wf_array img" and "wf_array msk"
    and "shape img = (H, W)" and "shape msk = (H, W)" and "0 \<le> P"
  shows "(P < H \<and> P < W \<longrightarrow>
            (\<exists>x y. randint 0 (H - P) g = Inr (x, stl g)
               \<and> randint 0 (W - P) (stl g) = Inr (y, stl (stl g))
               \<and> x = int (shd g) mod (H - P) \<and> y = int (shd (stl g)) mod (W - P)
               \<and> 0 \<le> x \<and> x < H - P \<and> 0 \<le> y \<and> y < W - P
               \<and> random_crop (Some P) img msk g
                   = Inr ((window (nat x) (nat y) (nat P) (nat P) img,
                           window (nat x) (nat y) (nat P) (nat P) msk), stl (stl g))
               \<and> shape (window (nat x) (nat y) (nat P) (nat P) img) = (P, P)
               \<and> shape (window (nat x) (nat y) (nat P) (nat P) msk) = (P, P)))
         \<and> (H \<le> P \<or> W \<le> P \<longrightarrow> random_crop (Some P) img msk g = Inl ValueError)"
proof (intro conjI impI)
  assume big: "P < H \<and> P < W"
  have H: "H = int (length (cells img))" "H = int (length (cells msk))"
    and W: "W = int (width img)" "W = int (width msk)"
    using assms(3,4) by (simp_all add: shape_def)
  define x where "x = int (shd g) mod (H - P)"
  define y where "y = int (shd (stl g)) mod (W - P)"
  have x: "randint 0 (H - P) g = Inr (x, stl g)" "0 \<le> x" "x < H - P"
    using big by (simp_all add: randint_def x_def)
  have y: "randint 0 (W - P) (stl g) = Inr (y, stl (stl g))" "0 \<le> y" "y < W - P"
    using big by (simp_all add: randint_def y_def)
  have crop: "random_crop (Some P) img msk g
      = Inr ((slice2 x (x + P) y (y + P) img, slice2 x (x + P) y (y + P) msk), stl (stl g))"
    using assms(3,4) x(1) y(1) by (simp add: random_crop_def)
  have wi: "slice2 x (x + P) y (y + P) img = window (nat x) (nat y) (nat P) (nat P) img"
    using assms(1,5) x(2,3) y(2,3)
    by (intro slice2_in_range) (simp_all add: H(1) [symmetric] W(1) [symmetric])
  have wm: "slice2 x (x + P) y (y + P) msk = window (nat x) (nat y) (nat P) (nat P) msk"
    using assms(2,5) x(2,3) y(2,3)
    by (intro slice2_in_range) (simp_all add: H(2) [symmetric] W(2) [symmetric])
  have sh: "shape (window (nat x) (nat y) (nat P) (nat P) img) = (P, P)"
      "shape (window (nat x) (nat y) (nat P) (nat P) msk) = (P, P)"
    using assms(5) by (simp_all add: shape_window)
  have "randint 0 (H - P) g = Inr (x, stl g)
      \<and> randint 0 (W - P) (stl g) = Inr (y, stl (stl g))
      \<and> x = int (shd g) mod (H - P) \<and> y = int (shd (stl g)) mod (W - P)
      \<and> 0 \<le> x \<and> x < H - P \<and> 0 \<le> y \<and> y < W - P
      \<and> random_crop (Some P) img msk g
          = Inr ((window (nat x) (nat y) (nat P) (nat P) img,
                  window (nat x) (nat y) (nat P) (nat P) msk), stl (stl g))
      \<and> shape (window (nat x) (nat y) (nat P) (nat P) img) = (P, P)
      \<and> shape (window (nat x) (nat y) (nat P) (nat P) msk) = (P, P)"
    using x y crop sh by (simp only: wi wm x_def [symmetric] y_def [symmetric] simp_thms)
  then show "\<exists>x y. randint 0 (H - P) g = Inr (x, stl g)
               \<and> randint 0 (W - P) (stl g) = Inr (y, stl (stl g))
               \<and> x = int (shd g) mod (H - P) \<and> y = int (shd (stl g)) mod (W - P)
               \<and> 0 \<le> x \<and> x < H - P \<and> 0 \<le> y \<and> y < W - P
               \<and> random_crop (Some P) img msk g
                   = Inr ((window (nat x) (nat y) (nat P) (nat P) img,
                           window (nat x) (nat y) (nat P) (nat P) msk), stl (stl g))
               \<and> shape (window (nat x) (nat y) (nat P) (nat P) img) = (P, P)
               \<and> shape (window (nat x) (nat y) (nat P) (nat P) msk) = (P, P)"
    by blast
next
  assume small: "H \<le> P \<or> W \<le> P"
  show "random_crop (Some P) img msk g = Inl ValueError"
  proof (cases "H \<le> P")
    case True
    then show ?thesis
      using assms(3,4) by (simp add: random_crop_def randint_empty)
  next
    case False
    then obtain x where "randint 0 (H - P) g = Inr (x, stl g)"
      using randint_in_range [of 0 "H - P" g] by auto
    moreover have "W \<le> P" using small False by simp
    ultimately show ?thesis
      using assms(3,4) by (simp add: random_crop_def randint_empty)
  qed
qed

lemma wf_msk44: "wf_array msk44"
  by (simp add: wf_array_def msk44_def)

lemma shape_msk44: "shape msk44 = (4, 4)"
  by (simp add: shape_def msk44_def)

lemma window_img44_at_1_0:
  "window 1 0 2 2 img44 = \<lparr>width = 2, cells = [[4, 5], [8, 9]]\<rparr>
   \<and> window 1 0 2 2 msk44 = \<lparr>width = 2, cells = [[14, 15], [18, 19]]\<rparr>"
  by code_simp

theorem random_crop_window_witness:
  "wf_array img44 \<and> wf_array msk44 \<and> shape img44 = (4, 4) \<and> shape msk44 = (4, 4)
   \<and> (0::int) \<le> 2 \<and> (2::int) < 4 \<and> (4::int) \<le> 4
   \<and> randint 0 (4 - 2) (1 ## sconst 0) = Inr (1, sconst 0)
   \<and> randint 0 (4 - 2) (sconst 0) = Inr (0, sconst 0)
   \<and> random_crop (Some 2) img44 msk44 (1 ## sconst 0)
       = Inr ((\<lparr>width = 2, cells = [[4, 5], [8, 9]]\<rparr>,
               \<lparr>width = 2, cells = [[14, 15], [18, 19]]\<rparr>), sconst 0)
   \<and> random_crop (Some 4) img44 msk44 (1 ## sconst 0) = Inl ValueError"
proof -
  have p2: "(0::int) \<le> 2" and p4: "(0::int) \<le> 4" by simp_all
  have s: "stl (sconst (0::nat)) = sconst 0" "shd (sconst (0::nat)) = 0"
    by simp_all
  have c: "random_crop (Some 2) img44 msk44 (1 ## sconst 0)
       = Inr ((window 1 0 2 2 img44, window 1 0 2 2 msk44), sconst 0)"
    using random_crop_window [OF wf_img44 wf_msk44 shape_img44 shape_msk44 p2,
        of "1 ## sconst 0"]
    by (simp add: s)
  have r: "randint 0 (4 - 2) (1 ## sconst 0) = Inr (1, sconst 0)"
      "randint 0 (4 - 2) (sconst 0) = Inr (0, sconst 0)"
    using random_crop_window [OF wf_img44 wf_msk44 shape_img44 shape_msk44 p2,
        of "1 ## sconst 0"]
    by (simp_all add: s)
  have e: "random_crop (Some 4) img44 msk44 (1 ## sconst 0) = Inl ValueError"
    using random_crop_window [OF wf_img44 wf_msk44 shape_img44 shape_msk44 p4,
        of "1 ## sconst 0"]
    by simp
  show ?thesis
    using c r e window_img44_at_1_0
    by (simp add: wf_img44 wf_msk44 shape_img44 shape_msk44)
qed

section \<open>The number of batches\<close>

lemma py_slice_block:
  assumes "0 < B" and "(int k + 1) * B \<le> int (length xs)"
  shows "py_slice (int k * B) ((int k + 1) * B) xs = take (nat B) (drop (k * nat B) xs)"
proof -
  have nn: "0 \<le> int k * B"
    using assms(1) by simp
  have le: "int k * B \<le> (int k + 1) * B"
    using assms(1) by (simp add: distrib_right)
  have fit: "int k * B \<le> int (length xs)"
    using le assms(2) by linarith
  have lo: "slice_bound (length xs) (int k * B) = k * nat B"
    using nn fit by (simp add: slice_bound_in_range nat_mult_distrib)
  have hi: "slice_bound (length xs) ((int k + 1) * B) = k * nat B + nat B"
    using assms nn by (simp add: slice_bound_in_range nat_mult_distrib nat_add_distrib distrib_right)
  show ?thesis
    by (simp add: py_slice_def lo hi)
qed

lemma concat_windows:
  assumes "0 < B" and "int k * B \<le> int (length xs)"
  shows "concat (map (\<lambda>p. py_slice (int p * B) ((int p + 1) * B) xs) [0..<k])
           = take (k * nat B) xs"
  using assms(2)
proof (induction k)
  case 0
  then show ?case by simp
next
  case (Suc k)
  have le: "int k * B \<le> int (Suc k) * B"
    using assms(1) by (simp add: distrib_right)
  then have ih: "concat (map (\<lambda>p. py_slice (int p * B) ((int p + 1) * B) xs) [0..<k])
      = take (k * nat B) xs"
    using Suc by simp
  have blk: "py_slice (int k * B) ((int k + 1) * B) xs = take (nat B) (drop (k * nat B) xs)"
    using assms(1) Suc.prems by (intro py_slice_block) (simp_all add: add.commute)
  let ?f = "\<lambda>p. py_slice (int p * B) ((int p + 1) * B) xs"
  have "concat (map ?f [0..<Suc k]) = concat (map ?f [0..<k]) @ ?f k"
    by simp
  also have "\<dots> = take (k * nat B) xs @ take (nat B) (drop (k * nat B) xs)"
    by (simp only: ih blk)
  also have "\<dots> = take (k * nat B + nat B) xs"
    by (simp add: take_add)
  also have "\<dots> = take (Suc k * nat B) xs"
    by (simp add: add.commute)
  finally show ?case .
qed

lemma nth_notin_take:
  assumes "distinct xs" and "n \<le> j" and "j < length xs"
  shows "xs ! j \<notin> set (take n xs)"
proof
  assume "xs ! j \<in> set (take n xs)"
  then obtain i where i: "i < length (take n xs)" "take n xs ! i = xs ! j"
    by (auto simp: in_set_conv_nth)
  then have "i < n" "i < length xs" "xs ! i = xs ! j"
    by simp_all
  then have "i = j"
    using assms(1,3) by (simp add: nth_eq_iff_index_eq)
  then show False
    using \<open>i < n\<close> assms(2) by simp
qed

text \<open>
  Claim C6. For a positive batch size \<open>B\<close> the number of batches is \<open>N div B\<close>. One pass
  over the positions \<open>0, \<dots>, N div B - 1\<close> draws the first \<open>(N div B) * B\<close> entries of
  the permutation and no other: the entries behind them are never drawn. With 17
  samples and batches of 8 there are 2 batches, which draw 16 entries.
\<close>

theorem len_floor:
  assumes "0 < batch_size s" and "length (indexes s) = length (ldct s)"
  shows "len s = Inr (int (length (ldct s)) div batch_size s)
         \<and> epoch_pass s
             = take (nat (int (length (ldct s)) div batch_size s) * nat (batch_size s)) (indexes s)
         \<and> (distinct (indexes s) \<longrightarrow>
              (\<forall>j. nat (int (length (ldct s)) div batch_size s) * nat (batch_size s) \<le> j
                    \<and> j < length (ldct s)
                 \<longrightarrow> indexes s ! j \<notin> set (epoch_pass s)))
         \<and> (length (ldct s) = 17 \<and> batch_size s = 8 \<longrightarrow>
              len s = Inr 2 \<and> epoch_pass s = take 16 (indexes s))"
proof -
  let ?N = "int (length (ldct s))" and ?B = "batch_size s"
  have l: "len s = Inr (?N div ?B)"
    using assms(1) by (simp add: len_def)
  have nn: "0 \<le> ?N div ?B"
    using assms(1) by (simp add: pos_imp_zdiv_nonneg_iff)
  have "?N div ?B * ?B \<le> ?N"
    using assms(1) by (metis div_mult_mod_eq le_add_same_cancel1 pos_mod_sign)
  then have fits: "int (nat (?N div ?B)) * ?B \<le> int (length (indexes s))"
    using nn assms(2) by simp
  have pass: "epoch_pass s = take (nat (?N div ?B) * nat ?B) (indexes s)"
    using concat_windows [OF assms(1) fits]
    by (simp add: epoch_pass_def l batch_window_def)
  have never: "distinct (indexes s) \<longrightarrow>
      (\<forall>j. nat (?N div ?B) * nat ?B \<le> j \<and> j < length (ldct s)
         \<longrightarrow> indexes s ! j \<notin> set (epoch_pass s))"
    using assms(2) by (simp add: pass nth_notin_take)
  have ex: "length (ldct s) = 17 \<and> batch_size s = 8 \<longrightarrow>
      len s = Inr 2 \<and> epoch_pass s = take 16 (indexes s)"
    using l pass by auto
  show ?thesis
    using l pass never ex by blast
qed

theorem len_floor_witness:
  "0 < batch_size (mk_loader ''valid'' 8 True 2 store17 store17)
   \<and> length (indexes (mk_loader ''valid'' 8 True 2 store17 store17))
       = length (ldct (mk_loader ''valid'' 8 True 2 store17 store17))
   \<and> distinct (indexes (mk_loader ''valid'' 8 True 2 store17 store17))
   \<and> length (ldct (mk_loader ''valid'' 8 True 2 store17 store17)) = 17
   \<and> len (mk_loader ''valid'' 8 True 2 store17 store17) = Inr 2
   \<and> epoch_pass (mk_loader ''valid'' 8 True 2 store17 store17)
       = map int [0..<16]
   \<and> indexes (mk_loader ''valid'' 8 True 2 store17 store17) ! 16 = 16
   \<and> 16 \<notin> set (epoch_pass (mk_loader ''valid'' 8 True 2 store17 store17))"
proof -
  let ?s = "mk_loader ''valid'' 8 True 2 store17 store17"
  have b: "0 < batch_size ?s" by (simp add: mk_loader_def)
  have n: "length (indexes ?s) = length (ldct ?s)" by (simp add: mk_loader_def)
  have d: "distinct (indexes ?s)" by (simp add: mk_loader_def distinct_map)
  have l: "length (ldct ?s) = 17" "batch_size ?s = 8" by (simp_all add: mk_loader_def store17_def)
  have i: "indexes ?s = map int [0..<17]" by (simp add: mk_loader_def store17_def)
  have t: "take 16 (map int [0..<17]) = map int [0..<16]"
    by (simp add: take_map)
  have e: "indexes ?s ! 16 = 16" by (simp add: i)
  show ?thesis
    using len_floor [OF b n] b n d l i t e by auto
qed

section \<open>The shuffle at the end of an epoch\<close>

lemma length_swap: "length (swap i j xs) = length xs"
  by (simp add: swap_def)

lemma mset_swap_entries:
  "i < length xs \<Longrightarrow> j < length xs \<Longrightarrow> mset (swap i j xs) = mset xs"
  unfolding swap_def by (rule mset_swap)

lemma shuffle_from_mset:
  "k < length xs \<Longrightarrow> mset (fst (shuffle_from k xs g)) = mset xs"
proof (induction k arbitrary: xs g)
  case 0
  then show ?case by simp
next
  case (Suc k)
  let ?j = "shd g mod Suc (Suc k)"
  have j: "?j < length xs"
    using Suc.prems by (meson Suc_leI less_le_trans mod_less_divisor zero_less_Suc)
  have "mset (fst (shuffle_from k (swap (Suc k) ?j xs) (stl g))) = mset (swap (Suc k) ?j xs)"
    using Suc.prems by (intro Suc.IH) (simp add: length_swap)
  also have "\<dots> = mset xs"
    using Suc.prems j by (rule mset_swap_entries)
  finally show ?case by simp
qed

lemma shuffle_mset: "mset (fst (shuffle xs g)) = mset xs"
proof (cases xs)
  case Nil
  then show ?thesis by (simp add: shuffle_def)
next
  case (Cons x ys)
  then have "length xs - 1 < length xs" by simp
  then show ?thesis
    unfolding shuffle_def by (rule shuffle_from_mset)
qed

text \<open>
  Claim C9. \<open>on_epoch_end\<close> keeps the index sequence a permutation of \<open>[0, N)\<close>: in
  train mode it replaces the sequence by its shuffle, which has the same entries, and
  changes nothing else; in every other mode (valid, test) it changes nothing at all.
\<close>

theorem on_epoch_end_permutation:
  assumes "is_permutation (indexes s) (length (ldct s))"
  shows "is_permutation (indexes (fst (on_epoch_end s g)))
           (length (ldct (fst (on_epoch_end s g))))
         \<and> (mode s = ''train'' \<longrightarrow>
              fst (on_epoch_end s g) = s\<lparr>indexes := fst (shuffle (indexes s) g)\<rparr>)
         \<and> (mode s \<noteq> ''train'' \<longrightarrow> on_epoch_end s g = (s, g))"
proof (cases "mode s = ''train''")
  case True
  then have e: "fst (on_epoch_end s g) = s\<lparr>indexes := fst (shuffle (indexes s) g)\<rparr>"
    by (simp add: on_epoch_end_def split_beta)
  have "mset (fst (shuffle (indexes s) g)) = mset (indexes s)"
    by (rule shuffle_mset)
  then have "is_permutation (fst (shuffle (indexes s) g)) (length (ldct s))"
    using assms by (simp add: is_permutation_def)
  then show ?thesis
    using True e by simp
next
  case False
  then have "on_epoch_end s g = (s, g)"
    by (simp add: on_epoch_end_def)
  then show ?thesis
    using False assms by simp
qed

theorem on_epoch_end_permutation_witness:
  "is_permutation (indexes (mk_loader ''train'' 2 True 2 store3 store3))
     (length (ldct (mk_loader ''train'' 2 True 2 store3 store3)))
   \<and> mode (mk_loader ''train'' 2 True 2 store3 store3) = ''train''
   \<and> indexes (mk_loader ''train'' 2 True 2 store3 store3) = [0, 1, 2]
   \<and> indexes (fst (on_epoch_end (mk_loader ''train'' 2 True 2 store3 store3) (sconst 0)))
       = [1, 2, 0]
   \<and> is_permutation [1, 2, 0] 3
   \<and> is_permutation (indexes (mk_loader ''valid'' 2 True 2 store3 store3))
     (length (ldct (mk_loader ''valid'' 2 True 2 store3 store3)))
   \<and> mode (mk_loader ''valid'' 2 True 2 store3 store3) \<noteq> ''train''
   \<and> on_epoch_end (mk_loader ''valid'' 2 True 2 store3 store3) (sconst 0)
       = (mk_loader ''valid'' 2 True 2 store3 store3, sconst 0)"
proof -
  let ?t = "mk_loader ''train'' 2 True 2 store3 store3"
  let ?v = "mk_loader ''valid'' 2 True 2 store3 store3"
  have pt: "is_permutation (indexes ?t) (length (ldct ?t))"
    by (simp add: is_permutation_def mk_loader_def)
  have pv: "is_permutation (indexes ?v) (length (ldct ?v))"
    by (simp add: is_permutation_def mk_loader_def)
  have i: "indexes ?t = [0, 1, 2]"
    by (simp add: mk_loader_def store3_def upt_rec)
  have m: "mode ?t = ''train''" "mode ?v \<noteq> ''train''" "length (ldct ?t) = 3"
    by (simp_all add: mk_loader_def store3_def)
  have e: "indexes (fst (on_epoch_end ?t (sconst 0))) = [1, 2, 0]"
    by (simp add: on_epoch_end_def mk_loader_def store3_def shuffle_def swap_def split_beta
        numeral_2_eq_2 upt_rec)
  have l: "length (ldct (fst (on_epoch_end ?t (sconst 0)))) = 3"
    by (simp add: on_epoch_end_def mk_loader_def store3_def split_beta)
  show ?thesis
    using on_epoch_end_permutation [OF pt, of "sconst 0"]
      on_epoch_end_permutation [OF pv, of "sconst 0"] pt pv i m e l
    by simp
qed

section \<open>Batch assembly\<close>

lemma get_sample_cong:
  assumes "mode s = mode t" and "train_pair s = train_pair t" and "patch_size s = patch_size t"
    and "ldct s = ldct t" and "ndct s = ndct t" and "aug s = aug t"
  shows "get_sample fx s j g = get_sample fx t j g"
  unfolding get_sample_def assms by (rule refl)

lemma getbatch_loop_cong:
  assumes "mode s = mode t" and "train_pair s = train_pair t" and "patch_size s = patch_size t"
    and "ldct s = ldct t" and "ndct s = ndct t" and "aug s = aug t"
  shows "getbatch_loop fx s i idxs bx bY g = getbatch_loop fx t i idxs bx bY g"
proof (induction idxs arbitrary: i bx bY g)
  case Nil
  show ?case by simp
next
  case (Cons j rest)
  have "get_sample fx s j g = get_sample fx t j g"
    using assms by (rule get_sample_cong)
  then show ?case
    by (simp add: Cons.IH split: sum.splits prod.splits)
qed

lemma assign_Inr:
  assumes "assign batch i v = Inr b"
  shows "length b = length batch \<and> (\<forall>k. k \<noteq> i \<longrightarrow> b ! k = batch ! k)"
  using assms by (auto simp: assign_def split: if_splits sum.splits)

lemma getbatch_loop_untouched:
  assumes "getbatch_loop fx s i idxs bx bY g = Inr ((bx1, bY1), g1)"
  shows "length bx1 = length bx \<and> length bY1 = length bY
         \<and> (\<forall>k. k < i \<or> i + length idxs \<le> k \<longrightarrow> bx1 ! k = bx ! k \<and> bY1 ! k = bY ! k)"
  using assms
proof (induction idxs arbitrary: i bx bY g)
  case Nil
  then show ?case by simp
next
  case (Cons j rest)
  from Cons.prems obtain l n g2 bx2 bY2 where
    a: "assign bx i l = Inr bx2" "assign bY i n = Inr bY2"
    and r: "getbatch_loop fx s (Suc i) rest bx2 bY2 g2 = Inr ((bx1, bY1), g1)"
    by (auto split: sum.splits prod.splits)
  have ih: "length bx1 = length bx2 \<and> length bY1 = length bY2
      \<and> (\<forall>k. k < Suc i \<or> Suc i + length rest \<le> k \<longrightarrow> bx1 ! k = bx2 ! k \<and> bY1 ! k = bY2 ! k)"
    using r by (rule Cons.IH)
  have ax: "length bx2 = length bx \<and> (\<forall>k. k \<noteq> i \<longrightarrow> bx2 ! k = bx ! k)"
    using a(1) by (rule assign_Inr)
  have ay: "length bY2 = length bY \<and> (\<forall>k. k \<noteq> i \<longrightarrow> bY2 ! k = bY ! k)"
    using a(2) by (rule assign_Inr)
  show ?case
    using ih ax ay by auto
qed

lemma getbatch_empty:
  assumes "0 \<le> batch_size s" and "0 \<le> fst (input_size s)" and "0 \<le> snd (input_size s)"
  shows "getbatch fx s [] g
    = Inr ((replicate (nat (batch_size s))
              (add_axis (zeros (nat (fst (input_size s))) (nat (snd (input_size s))))),
            replicate (nat (batch_size s))
              (add_axis (zeros (nat (fst (input_size s))) (nat (snd (input_size s)))))), g)"
  using assms by (simp add: getbatch_def split_beta newaxis_def)

lemma getbatch_Inr:
  assumes "getbatch fx s idxs g = Inr ((bx, bY), g1)"
  shows "length bx = nat (batch_size s) \<and> length bY = nat (batch_size s)
         \<and> (\<forall>k. length idxs \<le> k \<and> k < nat (batch_size s) \<longrightarrow>
               bx ! k = add_axis (zeros (nat (fst (input_size s))) (nat (snd (input_size s))))
             \<and> bY ! k = add_axis (zeros (nat (fst (input_size s))) (nat (snd (input_size s)))))"
proof -
  let ?z = "zeros (nat (fst (input_size s))) (nat (snd (input_size s))) :: 'a ndarray"
  let ?b = "replicate (nat (batch_size s)) ?z"
  from assms obtain bx1 bY1 where
    l: "getbatch_loop fx s 0 idxs ?b ?b g = Inr ((bx1, bY1), g1)"
    and n: "bx = newaxis bx1" "bY = newaxis bY1"
    by (auto simp: getbatch_def split_beta Let_def split: if_splits sum.splits)
  have u: "length bx1 = length ?b \<and> length bY1 = length ?b
      \<and> (\<forall>k. k < 0 \<or> 0 + length idxs \<le> k \<longrightarrow> bx1 ! k = ?b ! k \<and> bY1 ! k = ?b ! k)"
    using l by (rule getbatch_loop_untouched)
  then have len: "length bx1 = nat (batch_size s)" "length bY1 = nat (batch_size s)"
    by simp_all
  have "bx ! k = add_axis ?z \<and> bY ! k = add_axis ?z"
    if "length idxs \<le> k" and "k < nat (batch_size s)" for k
  proof -
    have "bx1 ! k = ?z" "bY1 ! k = ?z"
      using u that by simp_all
    then show ?thesis
      using that len by (simp add: n newaxis_def)
  qed
  then show ?thesis
    using len by (simp add: n newaxis_def)
qed

lemma py_slice_past_end: "int (length xs) \<le> a \<Longrightarrow> py_slice a b xs = []"
  using slice_bound_le [of "length xs" b]
  by (simp add: py_slice_def slice_bound_def)

lemma py_slice_to_zero: "py_slice a 0 xs = []"
  by (simp add: py_slice_def slice_bound_def)

lemma batch_window_past_end:
  "int (length (indexes s)) \<le> idx * batch_size s \<Longrightarrow> batch_window s idx = []"
  by (simp add: batch_window_def py_slice_past_end)

lemma batch_window_minus_one: "batch_window s (- 1) = []"
  by (simp add: batch_window_def py_slice_to_zero)

lemma nat_minus_int: "0 \<le> m \<Longrightarrow> n - nat m = nat (int n - m)"
  by arith

lemma batch_window_last:
  assumes "0 < batch_size s"
  shows "length (batch_window s (int (length (indexes s)) div batch_size s))
           = nat (int (length (indexes s)) mod batch_size s)"
proof -
  let ?N = "int (length (indexes s))" and ?B = "batch_size s"
  have nn: "0 \<le> ?N div ?B"
    using assms by (simp add: pos_imp_zdiv_nonneg_iff)
  have lo_le: "?N div ?B * ?B \<le> ?N"
    using assms by (metis div_mult_mod_eq le_add_same_cancel1 pos_mod_sign)
  have hi_gt: "?N < (?N div ?B + 1) * ?B"
    using assms by (metis div_mult_mod_eq distrib_right mult_1 add_less_cancel_left
        pos_mod_bound)
  have lo: "slice_bound (length (indexes s)) (?N div ?B * ?B) = nat (?N div ?B * ?B)"
    using nn assms lo_le by (simp add: slice_bound_in_range)
  have hi: "slice_bound (length (indexes s)) ((?N div ?B + 1) * ?B) = length (indexes s)"
    using hi_gt nn assms by (simp add: slice_bound_def)
  have "length (batch_window s (?N div ?B)) = length (indexes s) - nat (?N div ?B * ?B)"
    by (simp add: batch_window_def length_py_slice lo hi)
  also have "\<dots> = nat (?N - ?N div ?B * ?B)"
    using nn assms by (intro nat_minus_int) simp
  also have "?N - ?N div ?B * ?B = ?N mod ?B"
    by (simp add: minus_div_mult_eq_mod)
  finally show ?thesis .
qed

lemma int_slice_bound:
  "int (slice_bound n i) = (if i < 0 then max (i + int n) 0 else min i (int n))"
  by (simp add: slice_bound_def)

lemma clamp_diff:
  fixes a b m :: int
  assumes "a \<le> b" and "0 \<le> m"
  shows "(if b < 0 then max (b + m) 0 else min b m)
           - (if a < 0 then max (a + m) 0 else min a m) \<le> b - a"
  using assms by (simp add: max_def min_def split: if_splits)

lemma slice_bound_diff: "a \<le> b \<Longrightarrow> slice_bound n b - slice_bound n a \<le> nat (b - a)"
proof -
  assume "a \<le> b"
  then have "int (slice_bound n b) - int (slice_bound n a) \<le> b - a"
    unfolding int_slice_bound by (intro clamp_diff) simp_all
  then show ?thesis
    by linarith
qed

lemma length_batch_window:
  assumes "0 \<le> batch_size s"
  shows "length (batch_window s idx) \<le> nat (batch_size s)"
proof -
  have le: "idx * batch_size s \<le> (idx + 1) * batch_size s"
    using assms by (simp add: distrib_right)
  have d: "(idx + 1) * batch_size s - idx * batch_size s = batch_size s"
    by (simp add: distrib_right)
  show ?thesis
    using slice_bound_diff [OF le, of "length (indexes s)"]
    by (simp add: batch_window_def length_py_slice d)
qed

lemma center_start_fits:
  assumes "0 \<le> p" and "p \<le> x"
  shows "0 \<le> center_start x p \<and> center_start x p + p \<le> x"
  using assms unfolding center_start_def by linarith

lemma center_crop_fits:
  assumes "wf_array a" and "0 \<le> p" and "p \<le> fst (shape a)" and "p \<le> snd (shape a)"
  shows "\<exists>c. center_crop (Some p) a = Inr c \<and> length (cells c) = nat p \<and> width c = nat p"
proof -
  obtain X Y where sh: "shape a = (X, Y)"
    by (cases "shape a")
  have X: "X = int (length (cells a))" and Y: "Y = int (width a)"
    using sh by (simp_all add: shape_def)
  have fx: "0 \<le> center_start X p \<and> center_start X p + p \<le> X"
    using assms sh by (intro center_start_fits) simp_all
  have fy: "0 \<le> center_start Y p \<and> center_start Y p + p \<le> Y"
    using assms sh by (intro center_start_fits) simp_all
  have "slice2 (center_start X p) (center_start X p + p)
          (center_start Y p) (center_start Y p + p) a
      = window (nat (center_start X p)) (nat (center_start Y p)) (nat p) (nat p) a"
    using assms(1,2) fx fy by (intro slice2_in_range) (simp_all add: X Y)
  then have "center_crop (Some p) a
      = Inr (window (nat (center_start X p)) (nat (center_start Y p)) (nat p) (nat p) a)"
    using sh by (simp add: center_crop_def)
  then show ?thesis
    by (simp add: window_def)
qed

lemma py_get_in_range:
  "0 \<le> j \<Longrightarrow> j < int (length xs) \<Longrightarrow> py_get xs j = Inr (xs ! nat j)"
  by (simp add: py_get_def)

lemma get_sample_fits:
  assumes fit: "store_fits s" and j: "0 \<le> j" "j < int (length (ldct s))"
  shows "\<exists>l n. get_sample fx s j g = Inr ((l, n), g)
           \<and> length (cells l) = nat (fst (input_size s)) \<and> width l = nat (snd (input_size s))
           \<and> length (cells n) = nat (fst (input_size s)) \<and> width n = nat (snd (input_size s))"
proof -
  from fit obtain p where p: "patch_size s = Some p" "0 \<le> p" "input_size s = (p, p)"
    and all: "list_all (\<lambda>a. wf_array a \<and> p \<le> fst (shape a) \<and> p \<le> snd (shape a))
                (ldct s @ ndct s)"
    by (auto simp: store_fits_def split: option.splits)
  have m: "mode s \<noteq> ''train''" "train_pair s" "length (ndct s) = length (ldct s)"
    using fit by (simp_all add: store_fits_def)
  have jl: "nat j < length (ldct s)" and jn: "nat j < length (ndct s)"
    using j m(3) by simp_all
  have okl: "wf_array (ldct s ! nat j) \<and> p \<le> fst (shape (ldct s ! nat j))
      \<and> p \<le> snd (shape (ldct s ! nat j))"
    using all jl by (simp add: list_all_iff)
  have okn: "wf_array (ndct s ! nat j) \<and> p \<le> fst (shape (ndct s ! nat j))
      \<and> p \<le> snd (shape (ndct s ! nat j))"
    using all jn by (simp add: list_all_iff)
  obtain l where l: "center_crop (Some p) (ldct s ! nat j) = Inr l"
      "length (cells l) = nat p" "width l = nat p"
    using center_crop_fits [of "ldct s ! nat j" p] okl p(2) by blast
  obtain n where n: "center_crop (Some p) (ndct s ! nat j) = Inr n"
      "length (cells n) = nat p" "width n = nat p"
    using center_crop_fits [of "ndct s ! nat j" p] okn p(2) by blast
  have gl: "py_get (ldct s) j = Inr (ldct s ! nat j)"
    using j by (rule py_get_in_range)
  have gn: "py_get (ndct s) j = Inr (ndct s ! nat j)"
    using j m(3) by (simp add: py_get_in_range)
  have "get_sample fx s j g = Inr ((l, n), g)"
    using m(1,2) by (simp add: get_sample_def pair_index_def gl gn p(1) l(1) n(1))
  then show ?thesis
    using l n p(3) by simp
qed

lemma assign_fits:
  assumes "i < length batch" and "length (cells v) = length (cells (batch ! i))"
    and "width v = width (batch ! i)"
  shows "\<exists>b. assign batch i v = Inr b"
  using assms by (simp add: assign_def broadcast_to_def Let_def)

lemma getbatch_loop_fits:
  assumes ok: "\<forall>j\<in>set idxs. \<exists>l n. get_sample fx s j g = Inr ((l, n), g)
           \<and> length (cells l) = h \<and> width l = w \<and> length (cells n) = h \<and> width n = w"
    and bx: "i + length idxs \<le> length bx"
      "\<forall>k. i \<le> k \<and> k < length bx \<longrightarrow> length (cells (bx ! k)) = h \<and> width (bx ! k) = w"
    and bY: "i + length idxs \<le> length bY"
      "\<forall>k. i \<le> k \<and> k < length bY \<longrightarrow> length (cells (bY ! k)) = h \<and> width (bY ! k) = w"
  shows "\<exists>bx1 bY1. getbatch_loop fx s i idxs bx bY g = Inr ((bx1, bY1), g)"
  using assms
proof (induction idxs arbitrary: i bx bY)
  case Nil
  then show ?case by simp
next
  case (Cons j rest)
  obtain l n where s: "get_sample fx s j g = Inr ((l, n), g)"
      "length (cells l) = h" "width l = w" "length (cells n) = h" "width n = w"
    using Cons.prems(1) by auto
  have ix: "i < length bx" and iy: "i < length bY"
    using Cons.prems(2,4) by simp_all
  obtain bx2 where ax: "assign bx i l = Inr bx2"
    using assign_fits [of i bx l] ix s(2,3) Cons.prems(3) by auto
  obtain bY2 where ay: "assign bY i n = Inr bY2"
    using assign_fits [of i bY n] iy s(4,5) Cons.prems(5) by auto
  have kx: "length bx2 = length bx \<and> (\<forall>k. k \<noteq> i \<longrightarrow> bx2 ! k = bx ! k)"
    using ax by (rule assign_Inr)
  have ky: "length bY2 = length bY \<and> (\<forall>k. k \<noteq> i \<longrightarrow> bY2 ! k = bY ! k)"
    using ay by (rule assign_Inr)
  have "\<exists>bx1 bY1. getbatch_loop fx s (Suc i) rest bx2 bY2 g = Inr ((bx1, bY1), g)"
  proof (rule Cons.IH)
    show "\<forall>j\<in>set rest. \<exists>l n. get_sample fx s j g = Inr ((l, n), g)
           \<and> length (cells l) = h \<and> width l = w \<and> length (cells n) = h \<and> width n = w"
      using Cons.prems(1) by simp
    show "Suc i + length rest \<le> length bx2"
      using Cons.prems(2) kx by simp
    show "\<forall>k. Suc i \<le> k \<and> k < length bx2 \<longrightarrow>
        length (cells (bx2 ! k)) = h \<and> width (bx2 ! k) = w"
      using Cons.prems(3) kx by auto
    show "Suc i + length rest \<le> length bY2"
      using Cons.prems(4) ky by simp
    show "\<forall>k. Suc i \<le> k \<and> k < length bY2 \<longrightarrow>
        length (cells (bY2 ! k)) = h \<and> width (bY2 ! k) = w"
      using Cons.prems(5) ky by auto
  qed
  then show ?case
    by (simp add: s(1) ax ay)
qed

lemma getitem_fits:
  assumes fit: "store_fits s"
  shows "\<exists>bx bY. getitem fx s idx g = Inr ((bx, bY), g)"
proof -
  from fit obtain p where p: "0 \<le> p" "input_size s = (p, p)"
    by (auto simp: store_fits_def split: option.splits)
  have B: "0 < batch_size s"
    using fit by (simp add: store_fits_def)
  let ?h = "nat (fst (input_size s))" and ?w = "nat (snd (input_size s))"
  let ?b = "replicate (nat (batch_size s)) (zeros ?h ?w :: 'a ndarray)"
  have rng: "\<forall>j\<in>set (indexes s). 0 \<le> j \<and> j < int (length (ldct s))"
    using fit by (simp add: store_fits_def list_all_iff)
  have ok: "\<forall>j\<in>set (batch_window s idx). \<exists>l n. get_sample fx s j g = Inr ((l, n), g)
           \<and> length (cells l) = ?h \<and> width l = ?w \<and> length (cells n) = ?h \<and> width n = ?w"
  proof
    fix j assume "j \<in> set (batch_window s idx)"
    then have "j \<in> set (indexes s)"
      by (metis batch_window_def set_py_slice subsetD)
    then have "0 \<le> j" "j < int (length (ldct s))"
      using rng by simp_all
    then show "\<exists>l n. get_sample fx s j g = Inr ((l, n), g)
           \<and> length (cells l) = ?h \<and> width l = ?w \<and> length (cells n) = ?h \<and> width n = ?w"
      using fit by (intro get_sample_fits)
  qed
  have len: "0 + length (batch_window s idx) \<le> length ?b"
    using length_batch_window [of s idx] B by simp
  have dims: "\<forall>k. 0 \<le> k \<and> k < length ?b \<longrightarrow>
      length (cells (?b ! k)) = ?h \<and> width (?b ! k) = ?w"
    by (simp add: zeros_def)
  obtain bx1 bY1 where
    "getbatch_loop fx s 0 (batch_window s idx) ?b ?b g = Inr ((bx1, bY1), g)"
    using getbatch_loop_fits [OF ok len dims len dims] by blast
  then show ?thesis
    using B p by (simp add: getitem_def getbatch_def)
qed

lemma assign_append:
  assumes "i < length bx"
  shows "assign (bx @ px) i v = (case assign bx i v of Inl e \<Rightarrow> Inl e | Inr b \<Rightarrow> Inr (b @ px))"
  using assms by (simp add: assign_def nth_append list_update_append1 split: sum.splits)

lemma getbatch_loop_append:
  assumes "i + length idxs \<le> length bx" and "i + length idxs \<le> length bY"
  shows "getbatch_loop fx s i idxs (bx @ px) (bY @ pY) g
           = (case getbatch_loop fx s i idxs bx bY g of
                Inl e \<Rightarrow> Inl e
              | Inr ((b1, b2), g1) \<Rightarrow> Inr ((b1 @ px, b2 @ pY), g1))"
  using assms
proof (induction idxs arbitrary: i bx bY g)
  case Nil
  show ?case by simp
next
  case (Cons j rest)
  have ix: "i < length bx" and iy: "i < length bY"
    using Cons.prems by simp_all
  show ?case
  proof (cases "get_sample fx s j g")
    case (Inl e)
    then show ?thesis by simp
  next
    case (Inr r)
    then obtain l n g1 where r: "get_sample fx s j g = Inr ((l, n), g1)"
      by (cases r) auto
    show ?thesis
    proof (cases "assign bx i l")
      case (Inl e)
      then show ?thesis
        using r ix by (simp add: assign_append)
    next
      case ax: (Inr bx2)
      have lx: "length bx2 = length bx"
        using assign_Inr [OF ax] by simp
      show ?thesis
      proof (cases "assign bY i n")
        case (Inl e)
        then show ?thesis
          using r ax ix iy by (simp add: assign_append)
      next
        case ay: (Inr bY2)
        have ly: "length bY2 = length bY"
          using assign_Inr [OF ay] by simp
        have "getbatch_loop fx s (Suc i) rest (bx2 @ px) (bY2 @ pY) g1
            = (case getbatch_loop fx s (Suc i) rest bx2 bY2 g1 of
                 Inl e \<Rightarrow> Inl e
               | Inr ((b1, b2), g2) \<Rightarrow> Inr ((b1 @ px, b2 @ pY), g2))"
          using Cons.prems lx ly by (intro Cons.IH) simp_all
        then show ?thesis
          using r ax ay ix iy by (simp add: assign_append)
      qed
    qed
  qed
qed

lemma getbatch_padded:
  assumes "0 \<le> batch_size s" and "length idxs \<le> nat (batch_size s)"
  shows "getbatch fx s idxs g
           = (case getbatch fx (s\<lparr>batch_size := int (length idxs)\<rparr>) idxs g of
                Inl e \<Rightarrow> Inl e
              | Inr ((bx, bY), g1) \<Rightarrow>
                  Inr ((bx @ replicate (nat (batch_size s) - length idxs)
                               (add_axis (zeros (nat (fst (input_size s)))
                                            (nat (snd (input_size s))))),
                        bY @ replicate (nat (batch_size s) - length idxs)
                               (add_axis (zeros (nat (fst (input_size s)))
                                            (nat (snd (input_size s)))))), g1))"
proof (cases "fst (input_size s) < 0 \<or> snd (input_size s) < 0")
  case True
  then show ?thesis
    by (auto simp: getbatch_def split_beta)
next
  case False
  let ?n = "length idxs" and ?B = "nat (batch_size s)"
  let ?z = "zeros (nat (fst (input_size s))) (nat (snd (input_size s))) :: 'a ndarray"
  let ?t = "s\<lparr>batch_size := int (length idxs)\<rparr>"
  have rep: "replicate ?B ?z = replicate ?n ?z @ replicate (?B - ?n) ?z"
    using assms(2) by (simp add: replicate_add [symmetric])
  have cong: "getbatch_loop fx ?t 0 idxs bx bY g = getbatch_loop fx s 0 idxs bx bY g"
    for bx bY
    by (rule getbatch_loop_cong) simp_all
  have app: "getbatch_loop fx s 0 idxs (replicate ?n ?z @ replicate (?B - ?n) ?z)
               (replicate ?n ?z @ replicate (?B - ?n) ?z) g
      = (case getbatch_loop fx s 0 idxs (replicate ?n ?z) (replicate ?n ?z) g of
           Inl e \<Rightarrow> Inl e
         | Inr ((b1, b2), g1) \<Rightarrow>
             Inr ((b1 @ replicate (?B - ?n) ?z, b2 @ replicate (?B - ?n) ?z), g1))"
    by (rule getbatch_loop_append) simp_all
  have nb: "\<not> batch_size s < 0"
    using assms(1) by simp
  have l: "getbatch fx s idxs g
      = (case getbatch_loop fx s 0 idxs (replicate ?B ?z) (replicate ?B ?z) g of
           Inl e \<Rightarrow> Inl e
         | Inr ((bx1, bY1), g1) \<Rightarrow> Inr ((newaxis bx1, newaxis bY1), g1))"
    using False nb by (simp add: getbatch_def split_beta)
  have r: "getbatch fx ?t idxs g
      = (case getbatch_loop fx s 0 idxs (replicate ?n ?z) (replicate ?n ?z) g of
           Inl e \<Rightarrow> Inl e
         | Inr ((bx1, bY1), g1) \<Rightarrow> Inr ((newaxis bx1, newaxis bY1), g1))"
    using False by (simp add: getbatch_def split_beta cong)
  show ?thesis
    unfolding l r rep app
    by (simp add: newaxis_def split: sum.splits prod.splits)
qed


text \<open>
  Claim C10. A window shorter than the batch size raises nothing of its own and leaves
  the rows it does not fill at zero: the batch of a short window is the full batch of
  the window's samples (what \<open>getbatch\<close> returns for these indices when the batch size
  is their number) followed by all-zero rows up to \<open>batch_size\<close>, and it is an error
  exactly when that full batch is, with the same error. So whenever \<open>__getitem__\<close>
  returns, both arrays have \<open>batch_size\<close> rows and every row past the window is all
  zeros; with an empty window, as for every position with
  \<open>position * batch_size \<ge> N\<close>, it returns the two all-zero arrays; and it returns at
  every position when the store fits the loader (evaluation mode, paired targets,
  arrays no smaller than the patch).
\<close>

theorem getitem_short_window:
  assumes "length (batch_window s idx) < nat (batch_size s)"
  shows "getitem fx s idx g
           = (case getbatch fx (s\<lparr>batch_size := int (length (batch_window s idx))\<rparr>)
                     (batch_window s idx) g of
                Inl e \<Rightarrow> Inl e
              | Inr ((cx, cY), g2) \<Rightarrow>
                  Inr ((cx @ replicate (nat (batch_size s) - length (batch_window s idx))
                               (add_axis (zeros (nat (fst (input_size s)))
                                            (nat (snd (input_size s))))),
                        cY @ replicate (nat (batch_size s) - length (batch_window s idx))
                               (add_axis (zeros (nat (fst (input_size s)))
                                            (nat (snd (input_size s)))))), g2))
         \<and> (getitem fx s idx g = Inr ((bx, bY), g1) \<longrightarrow>
              length bx = nat (batch_size s) \<and> length bY = nat (batch_size s)
              \<and> (\<forall>k. length (batch_window s idx) \<le> k \<and> k < nat (batch_size s) \<longrightarrow>
                    bx ! k = add_axis (zeros (nat (fst (input_size s)))
                                         (nat (snd (input_size s))))
                  \<and> bY ! k = add_axis (zeros (nat (fst (input_size s)))
                                         (nat (snd (input_size s))))))
         \<and> (batch_window s idx = [] \<and> 0 \<le> fst (input_size s) \<and> 0 \<le> snd (input_size s) \<longrightarrow>
              getitem fx s idx g
                = Inr ((replicate (nat (batch_size s))
                          (add_axis (zeros (nat (fst (input_size s)))
                                       (nat (snd (input_size s))))),
                        replicate (nat (batch_size s))
                          (add_axis (zeros (nat (fst (input_size s)))
                                       (nat (snd (input_size s)))))), g))
         \<and> (int (length (indexes s)) \<le> idx * batch_size s \<longrightarrow> batch_window s idx = [])
         \<and> (store_fits s \<longrightarrow> (\<exists>cx cY. getitem fx s idx g = Inr ((cx, cY), g)))"
proof (intro conjI impI)
  have B: "0 \<le> batch_size s" and le: "length (batch_window s idx) \<le> nat (batch_size s)"
    using assms by simp_all
  show "getitem fx s idx g
           = (case getbatch fx (s\<lparr>batch_size := int (length (batch_window s idx))\<rparr>)
                     (batch_window s idx) g of
                Inl e \<Rightarrow> Inl e
              | Inr ((cx, cY), g2) \<Rightarrow>
                  Inr ((cx @ replicate (nat (batch_size s) - length (batch_window s idx))
                               (add_axis (zeros (nat (fst (input_size s)))
                                            (nat (snd (input_size s))))),
                        cY @ replicate (nat (batch_size s) - length (batch_window s idx))
                               (add_axis (zeros (nat (fst (input_size s)))
                                            (nat (snd (input_size s)))))), g2))"
    unfolding getitem_def using B le by (rule getbatch_padded)
next
  assume "getitem fx s idx g = Inr ((bx, bY), g1)"
  then have r: "getbatch fx s (batch_window s idx) g = Inr ((bx, bY), g1)"
    by (simp add: getitem_def)
  show "length bx = nat (batch_size s)" and "length bY = nat (batch_size s)"
    and "\<forall>k. length (batch_window s idx) \<le> k \<and> k < nat (batch_size s) \<longrightarrow>
            bx ! k = add_axis (zeros (nat (fst (input_size s))) (nat (snd (input_size s))))
          \<and> bY ! k = add_axis (zeros (nat (fst (input_size s))) (nat (snd (input_size s))))"
    using getbatch_Inr [OF r] by simp_all
next
  assume "batch_window s idx = [] \<and> 0 \<le> fst (input_size s) \<and> 0 \<le> snd (input_size s)"
  then show "getitem fx s idx g
        = Inr ((replicate (nat (batch_size s))
                  (add_axis (zeros (nat (fst (input_size s))) (nat (snd (input_size s))))),
                replicate (nat (batch_size s))
                  (add_axis (zeros (nat (fst (input_size s))) (nat (snd (input_size s)))))), g)"
    using assms by (simp add: getitem_def getbatch_empty)
next
  assume "int (length (indexes s)) \<le> idx * batch_size s"
  then show "batch_window s idx = []"
    by (rule batch_window_past_end)
next
  assume "store_fits s"
  then show "\<exists>cx cY. getitem fx s idx g = Inr ((cx, cY), g)"
    by (rule getitem_fits)
qed

lemma full_batch_paired:
  "getbatch keep_effect ((mk_loader ''valid'' 2 True 2 store1 store1)\<lparr>batch_size := 1\<rparr>) [0] g
   = Inr (([\<lparr>width = 2, cells = [[[5], [6]], [[9], [10]]]\<rparr>],
           [\<lparr>width = 2, cells = [[[5], [6]], [[9], [10]]]\<rparr>]), g)"
  by code_simp

lemma full_batch_unpaired:
  "getbatch keep_effect ((mk_loader ''valid'' 2 False 2 store1 store1)\<lparr>batch_size := 1\<rparr>) [0] g
   = Inl IndexError"
  by code_simp

lemma short_windows:
  "batch_window (mk_loader ''valid'' 2 True 2 store1 store1) 0 = [0]
   \<and> batch_window (mk_loader ''valid'' 2 True 2 store1 store1) 1 = []
   \<and> batch_window (mk_loader ''valid'' 2 False 2 store1 store1) 0 = [0]"
  by code_simp

lemma zero_slot:
  "add_axis (zeros 2 2) = \<lparr>width = 2, cells = [[[0], [0]], [[0 :: int], [0]]]\<rparr>"
  by code_simp

theorem getitem_short_window_witness:
  "length (batch_window (mk_loader ''valid'' 2 True 2 store1 store1) 0) = 1
   \<and> nat (batch_size (mk_loader ''valid'' 2 True 2 store1 store1)) = 2
   \<and> getbatch keep_effect ((mk_loader ''valid'' 2 True 2 store1 store1)\<lparr>batch_size := 1\<rparr>)
        [0] (sconst 0)
       = Inr (([\<lparr>width = 2, cells = [[[5], [6]], [[9], [10]]]\<rparr>],
               [\<lparr>width = 2, cells = [[[5], [6]], [[9], [10]]]\<rparr>]), sconst 0)
   \<and> getitem keep_effect (mk_loader ''valid'' 2 True 2 store1 store1) 0 (sconst 0)
       = Inr (([\<lparr>width = 2, cells = [[[5], [6]], [[9], [10]]]\<rparr>,
                \<lparr>width = 2, cells = [[[0], [0]], [[0], [0]]]\<rparr>],
               [\<lparr>width = 2, cells = [[[5], [6]], [[9], [10]]]\<rparr>,
                \<lparr>width = 2, cells = [[[0], [0]], [[0], [0]]]\<rparr>]), sconst 0)
   \<and> batch_window (mk_loader ''valid'' 2 True 2 store1 store1) 1 = []
   \<and> getitem keep_effect (mk_loader ''valid'' 2 True 2 store1 store1) 1 (sconst 0)
       = Inr (([\<lparr>width = 2, cells = [[[0], [0]], [[0], [0]]]\<rparr>,
                \<lparr>width = 2, cells = [[[0], [0]], [[0], [0]]]\<rparr>],
               [\<lparr>width = 2, cells = [[[0], [0]], [[0], [0]]]\<rparr>,
                \<lparr>width = 2, cells = [[[0], [0]], [[0], [0]]]\<rparr>]), sconst 0)
   \<and> length (batch_window (mk_loader ''valid'' 2 False 2 store1 store1) 0) = 1
   \<and> getbatch keep_effect ((mk_loader ''valid'' 2 False 2 store1 store1)\<lparr>batch_size := 1\<rparr>)
        [0] (sconst 0) = Inl IndexError
   \<and> getitem keep_effect (mk_loader ''valid'' 2 False 2 store1 store1) 0 (sconst 0)
       = Inl IndexError"
proof -
  let ?s = "mk_loader ''valid'' 2 True 2 store1 store1"
  let ?u = "mk_loader ''valid'' 2 False 2 store1 store1"
  have b: "batch_size ?s = 2" "input_size ?s = (2, 2)"
      "batch_size ?u = 2" "input_size ?u = (2, 2)"
    by (simp_all add: mk_loader_def)
  have s0: "length (batch_window ?s 0) < nat (batch_size ?s)"
    and s1: "length (batch_window ?s 1) < nat (batch_size ?s)"
    and u0: "length (batch_window ?u 0) < nat (batch_size ?u)"
    by (simp_all add: short_windows b)
  have r0: "getitem keep_effect ?s 0 (sconst 0)
       = Inr (([\<lparr>width = 2, cells = [[[5], [6]], [[9], [10]]]\<rparr>,
                \<lparr>width = 2, cells = [[[0], [0]], [[0], [0]]]\<rparr>],
               [\<lparr>width = 2, cells = [[[5], [6]], [[9], [10]]]\<rparr>,
                \<lparr>width = 2, cells = [[[0], [0]], [[0], [0]]]\<rparr>]), sconst 0)"
    using getitem_short_window [OF s0, of keep_effect "sconst 0"]
    by (simp add: short_windows b full_batch_paired zero_slot)
  have r1: "getitem keep_effect ?s 1 (sconst 0)
       = Inr (([\<lparr>width = 2, cells = [[[0], [0]], [[0], [0]]]\<rparr>,
                \<lparr>width = 2, cells = [[[0], [0]], [[0], [0]]]\<rparr>],
               [\<lparr>width = 2, cells = [[[0], [0]], [[0], [0]]]\<rparr>,
                \<lparr>width = 2, cells = [[[0], [0]], [[0], [0]]]\<rparr>]), sconst 0)"
  proof -
    have e: "batch_window ?s 1 = [] \<and> 0 \<le> fst (input_size ?s) \<and> 0 \<le> snd (input_size ?s)"
      by (simp add: short_windows b)
    have "getitem keep_effect ?s 1 (sconst 0)
        = Inr ((replicate (nat (batch_size ?s))
                  (add_axis (zeros (nat (fst (input_size ?s))) (nat (snd (input_size ?s))))),
                replicate (nat (batch_size ?s))
                  (add_axis (zeros (nat (fst (input_size ?s))) (nat (snd (input_size ?s)))))),
               sconst 0)"
      using getitem_short_window [OF s1, of keep_effect "sconst 0"] e by blast
    moreover have "replicate 2 x = [x, x]" for x :: "int list ndarray"
      by (simp add: numeral_2_eq_2)
    ultimately show ?thesis
      by (simp add: b zero_slot)
  qed
  have r2: "getitem keep_effect ?u 0 (sconst 0) = Inl IndexError"
    using getitem_short_window [OF u0, of keep_effect "sconst 0"]
    by (simp add: short_windows b full_batch_unpaired)
  show ?thesis
    using r0 r1 r2 full_batch_paired [of "sconst 0"] full_batch_unpaired [of "sconst 0"]
    by (simp add: short_windows b)
qed

section \<open>Positions out of range\<close>

lemma batch_window_tail:
  assumes "0 < batch_size s"
  shows "batch_window s (int (length (indexes s)) div batch_size s)
           = drop (length (indexes s) - nat (int (length (indexes s)) mod batch_size s))
               (indexes s)"
proof -
  let ?N = "int (length (indexes s))" and ?B = "batch_size s"
  have nn: "0 \<le> ?N div ?B"
    using assms by (simp add: pos_imp_zdiv_nonneg_iff)
  have lo_le: "?N div ?B * ?B \<le> ?N"
    using assms by (metis div_mult_mod_eq le_add_same_cancel1 pos_mod_sign)
  have hi_gt: "?N < (?N div ?B + 1) * ?B"
    using assms by (metis div_mult_mod_eq distrib_right mult_1 add_less_cancel_left
        pos_mod_bound)
  have lo: "slice_bound (length (indexes s)) (?N div ?B * ?B) = nat (?N div ?B * ?B)"
    using nn assms lo_le by (simp add: slice_bound_in_range)
  have "?N div ?B * ?B = ?N - ?N mod ?B"
    by (simp add: minus_mod_eq_div_mult)
  then have "nat (?N div ?B * ?B) = length (indexes s) - nat (?N mod ?B)"
    using assms by (simp add: nat_diff_distrib')
  with lo have lo': "slice_bound (length (indexes s)) (?N div ?B * ?B)
      = length (indexes s) - nat (?N mod ?B)"
    by simp
  have "batch_window s (?N div ?B)
      = drop (slice_bound (length (indexes s)) (?N div ?B * ?B)) (indexes s)"
    unfolding batch_window_def using hi_gt by (intro py_slice_to_end) simp
  then show ?thesis
    by (simp only: lo')
qed

text \<open>
  Claim C2, as the code has it. \<open>__getitem__\<close> compares the position with nothing. For
  a positive batch size and a non-negative working size, the window is empty and the
  call returns two all-zero arrays at position \<open>-1\<close>, at every position beyond
  \<open>len\<close>, and at \<open>len\<close> itself when the batch size divides \<open>N\<close>; in general the window at
  position \<open>len\<close> holds the last \<open>N mod batch_size\<close> entries of the permutation.
\<close>

theorem getitem_no_range_check:
  assumes "0 < batch_size s" and "0 \<le> fst (input_size s)" and "0 \<le> snd (input_size s)"
    and "length (indexes s) = length (ldct s)"
  shows "len s = Inr (int (length (ldct s)) div batch_size s)
         \<and> (idx = - 1 \<or> int (length (ldct s)) div batch_size s < idx
              \<or> (idx = int (length (ldct s)) div batch_size s
                  \<and> batch_size s dvd int (length (ldct s))) \<longrightarrow>
            getitem fx s idx g
              = Inr ((replicate (nat (batch_size s))
                        (add_axis (zeros (nat (fst (input_size s))) (nat (snd (input_size s))))),
                      replicate (nat (batch_size s))
                        (add_axis (zeros (nat (fst (input_size s))) (nat (snd (input_size s)))))),
                     g))
         \<and> length (batch_window s (int (length (ldct s)) div batch_size s))
             = nat (int (length (ldct s)) mod batch_size s)
         \<and> batch_window s (int (length (ldct s)) div batch_size s)
             = drop (length (ldct s) - nat (int (length (ldct s)) mod batch_size s))
                 (indexes s)"
proof (intro conjI impI)
  let ?N = "int (length (ldct s))" and ?B = "batch_size s"
  show "len s = Inr (?N div ?B)"
    using assms(1) by (simp add: len_def)
  show "length (batch_window s (?N div ?B)) = nat (?N mod ?B)"
    using batch_window_last [OF assms(1)] assms(4) by simp
  show "batch_window s (?N div ?B) = drop (length (ldct s) - nat (?N mod ?B)) (indexes s)"
    using batch_window_tail [OF assms(1)] assms(4) by simp
  assume c: "idx = - 1 \<or> ?N div ?B < idx \<or> (idx = ?N div ?B \<and> ?B dvd ?N)"
  have "batch_window s idx = []"
  proof -
    consider "idx = - 1" | "?N div ?B < idx" | "idx = ?N div ?B" "?B dvd ?N"
      using c by blast
    then show ?thesis
    proof cases
      case 1
      then show ?thesis by (simp add: batch_window_minus_one)
    next
      case 2
      then have "(?N div ?B + 1) * ?B \<le> idx * ?B"
        using assms(1) by (intro mult_right_mono) simp_all
      moreover have "?N < (?N div ?B + 1) * ?B"
        using assms(1)
        by (metis div_mult_mod_eq distrib_right mult_1 add_less_cancel_left pos_mod_bound)
      ultimately have "int (length (indexes s)) \<le> idx * ?B"
        using assms(4) by linarith
      then show ?thesis by (rule batch_window_past_end)
    next
      case 3
      then have "idx * ?B = ?N"
        by simp
      then show ?thesis
        using assms(4) by (intro batch_window_past_end) simp
    qed
  qed
  then show "getitem fx s idx g
      = Inr ((replicate (nat ?B)
                (add_axis (zeros (nat (fst (input_size s))) (nat (snd (input_size s))))),
              replicate (nat ?B)
                (add_axis (zeros (nat (fst (input_size s))) (nat (snd (input_size s)))))), g)"
    using assms(1,2,3) by (simp add: getitem_def getbatch_empty)
qed

lemma getitem_at_len:
  "getitem keep_effect (mk_loader ''valid'' 2 True 2 store2 store2) 1 g
   = Inr (([\<lparr>width = 2, cells = [[[0], [0]], [[0], [0]]]\<rparr>,
            \<lparr>width = 2, cells = [[[0], [0]], [[0], [0]]]\<rparr>],
           [\<lparr>width = 2, cells = [[[0], [0]], [[0], [0]]]\<rparr>,
            \<lparr>width = 2, cells = [[[0], [0]], [[0], [0]]]\<rparr>]), g)"
  by code_simp

lemma getitem_at_minus_one:
  "getitem keep_effect (mk_loader ''valid'' 2 True 2 store2 store2) (- 1) g
   = Inr (([\<lparr>width = 2, cells = [[[0], [0]], [[0], [0]]]\<rparr>,
            \<lparr>width = 2, cells = [[[0], [0]], [[0], [0]]]\<rparr>],
           [\<lparr>width = 2, cells = [[[0], [0]], [[0], [0]]]\<rparr>,
            \<lparr>width = 2, cells = [[[0], [0]], [[0], [0]]]\<rparr>]), g)"
  by code_simp

text \<open>
  The claim as written fails: over two samples with batches of 2, \<open>len\<close> is 1, and both
  position 1 and position \<open>-1\<close> return a batch instead of raising.
\<close>

theorem getitem_range_counterexample:
  "len (mk_loader ''valid'' 2 True 2 store2 store2) = Inr 1
   \<and> getitem keep_effect (mk_loader ''valid'' 2 True 2 store2 store2) 1 (sconst 0)
       \<noteq> Inl IndexError
   \<and> getitem keep_effect (mk_loader ''valid'' 2 True 2 store2 store2) (- 1) (sconst 0)
       \<noteq> Inl IndexError
   \<and> getitem keep_effect (mk_loader ''valid'' 2 True 2 store2 store2) 1 (sconst 0)
       = Inr (([\<lparr>width = 2, cells = [[[0], [0]], [[0], [0]]]\<rparr>,
                \<lparr>width = 2, cells = [[[0], [0]], [[0], [0]]]\<rparr>],
               [\<lparr>width = 2, cells = [[[0], [0]], [[0], [0]]]\<rparr>,
                \<lparr>width = 2, cells = [[[0], [0]], [[0], [0]]]\<rparr>]), sconst 0)"
proof -
  have "len (mk_loader ''valid'' 2 True 2 store2 store2) = Inr 1"
    by code_simp
  then show ?thesis
    using getitem_at_len [of "sconst 0"] getitem_at_minus_one [of "sconst 0"] by simp
qed

theorem getitem_no_range_check_witness:
  "0 < batch_size (mk_loader ''valid'' 2 True 2 store2 store2)
   \<and> input_size (mk_loader ''valid'' 2 True 2 store2 store2) = (2, 2)
   \<and> length (indexes (mk_loader ''valid'' 2 True 2 store2 store2))
       = length (ldct (mk_loader ''valid'' 2 True 2 store2 store2))
   \<and> len (mk_loader ''valid'' 2 True 2 store2 store2) = Inr 1
   \<and> getitem keep_effect (mk_loader ''valid'' 2 True 2 store2 store2) 7 (sconst 0)
       = Inr ((replicate 2 (add_axis (zeros 2 2)), replicate 2 (add_axis (zeros 2 2))),
              sconst 0)
   \<and> length (batch_window (mk_loader ''valid'' 2 True 2 store2 store2) 1) = 0"
proof -
  let ?s = "mk_loader ''valid'' 2 True 2 store2 store2"
  have b: "0 < batch_size ?s" and h: "0 \<le> fst (input_size ?s)" and w: "0 \<le> snd (input_size ?s)"
    and n: "length (indexes ?s) = length (ldct ?s)"
    by (simp_all add: mk_loader_def)
  have v: "batch_size ?s = 2" "input_size ?s = (2, 2)" "length (ldct ?s) = 2"
    by (simp_all add: mk_loader_def store2_def)
  show ?thesis
    using getitem_no_range_check [OF b h w n, of 7 keep_effect "sconst 0"] b n v
    by simp
qed

section \<open>The augmentation probabilities\<close>

lemma getitem_cong:
  assumes "mode s = mode t" and "train_pair s = train_pair t" and "patch_size s = patch_size t"
    and "ldct s = ldct t" and "ndct s = ndct t" and "aug s = aug t"
    and "batch_size s = batch_size t" and "input_size s = input_size t"
    and "indexes s = indexes t"
  shows "getitem fx s idx g = getitem fx t idx g"
proof -
  have l: "getbatch_loop fx s i idxs bx bY g = getbatch_loop fx t i idxs bx bY g"
    for i idxs bx bY
    using assms(1-6) by (rule getbatch_loop_cong)
  show ?thesis
    unfolding getitem_def getbatch_def batch_window_def assms(7-9) l by (rule refl)
qed

text \<open>
  Claim C1, as the code has it. \<open>set_params\<close> stores the three probabilities and leaves
  the pipeline \<open>self.aug\<close> alone, so a batch drawn after it is the batch drawn before it.
  The new probabilities reach the batches once \<open>get_augmentation\<close> has rebuilt the
  pipeline from them, as the constructor does: from then on every batch is drawn with
  the pipeline gated by the new probabilities.
\<close>

theorem set_params_needs_get_augmentation:
  "aug (set_params s a b c) = aug s
   \<and> getitem fx (set_params s a b c) idx g = getitem fx s idx g
   \<and> aug (get_augmentation (set_params s a b c))
       = [GridDistortion 3 a, ElasticTransform b, CLAHE c]
   \<and> getitem fx (get_augmentation (set_params s a b c)) idx g
       = getitem fx (s\<lparr>aug := [GridDistortion 3 a, ElasticTransform b, CLAHE c]\<rparr>) idx g"
proof (intro conjI)
  show "aug (set_params s a b c) = aug s"
    by (simp add: set_params_def)
  show "getitem fx (set_params s a b c) idx g = getitem fx s idx g"
    by (rule getitem_cong) (simp_all add: set_params_def)
  show "aug (get_augmentation (set_params s a b c))
       = [GridDistortion 3 a, ElasticTransform b, CLAHE c]"
    by (simp add: get_augmentation_def set_params_def)
  show "getitem fx (get_augmentation (set_params s a b c)) idx g
       = getitem fx (s\<lparr>aug := [GridDistortion 3 a, ElasticTransform b, CLAHE c]\<rparr>) idx g"
    by (rule getitem_cong) (simp_all add: get_augmentation_def set_params_def)
qed

lemma random_sample_zero: "random_sample (sconst 0) = (0, sconst 0)"
  by (simp add: random_sample_def)

lemma compose_never:
  "compose_call fx [GridDistortion 3 0, ElasticTransform 0, CLAHE 0] d (sconst 0)
     = (d, sconst 0)"
  by (simp add: random_sample_zero)

lemma compose_always:
  "compose_call flip_effect [GridDistortion 3 1, ElasticTransform 1, CLAHE 1] d (sconst 0)
     = ((fst d\<lparr>cells := rev (cells (fst d))\<rparr>, snd d\<lparr>cells := rev (cells (snd d))\<rparr>),
        sconst 0)"
  by (simp add: random_sample_zero flip_effect_def)

lemma random_crop_zero:
  assumes "shape a = (4, 4)" and "shape b = (4, 4)"
  shows "random_crop (Some 2) a b (sconst 0)
     = Inr ((slice2 0 2 0 2 a, slice2 0 2 0 2 b), sconst 0)"
  using assms by (simp add: random_crop_def randint_def)

lemma shape_flipped: "shape (a\<lparr>cells := rev (cells a)\<rparr>) = shape a"
  by (simp add: shape_def)

lemma loader_train_fields:
  "mode loader_train = ''train''" "train_pair loader_train" "patch_size loader_train = Some 2"
  "ldct loader_train = [img44]" "ndct loader_train = [msk44]"
  "aug loader_train = [GridDistortion 3 0, ElasticTransform 0, CLAHE 0]"
  "batch_size loader_train = 1" "input_size loader_train = (2, 2)"
  "indexes loader_train = [0]"
  by (simp_all add: loader_train_def mk_loader_def)

lemma sample_plain:
  "get_sample flip_effect loader_train 0 (sconst 0)
     = Inr ((slice2 0 2 0 2 img44, slice2 0 2 0 2 msk44), sconst 0)"
  by (simp add: get_sample_def loader_train_fields py_get_def pair_index_def compose_never
      random_crop_zero shape_img44 shape_msk44 del: compose_call.simps)

lemma sample_flipped:
  "get_sample flip_effect
     (loader_train\<lparr>aug := [GridDistortion 3 1, ElasticTransform 1, CLAHE 1]\<rparr>) 0 (sconst 0)
     = Inr ((slice2 0 2 0 2 (img44\<lparr>cells := rev (cells img44)\<rparr>),
             slice2 0 2 0 2 (msk44\<lparr>cells := rev (cells msk44)\<rparr>)), sconst 0)"
  by (simp add: get_sample_def loader_train_fields py_get_def pair_index_def compose_always
      random_crop_zero shape_img44 shape_msk44 shape_flipped del: compose_call.simps)

lemma getbatch_one:
  assumes "batch_size s = 1" and "input_size s = (2, 2)"
    and "get_sample fx s j g = Inr ((l, n), g1)"
    and "assign [zeros 2 2] 0 l = Inr [l1]" and "assign [zeros 2 2] 0 n = Inr [n1]"
  shows "getbatch fx s [j] g = Inr (([add_axis l1], [add_axis n1]), g1)"
  using assms by (simp add: getbatch_def newaxis_def numeral_2_eq_2)

lemma assign_plain:
  "assign [zeros 2 2] 0 (slice2 0 2 0 2 img44) = Inr [\<lparr>width = 2, cells = [[0, 1], [4, 5]]\<rparr>]"
  "assign [zeros 2 2] 0 (slice2 0 2 0 2 msk44)
     = Inr [\<lparr>width = 2, cells = [[10, 11], [14, 15]]\<rparr>]"
  by code_simp+

lemma assign_flipped:
  "assign [zeros 2 2] 0 (slice2 0 2 0 2 (img44\<lparr>cells := rev (cells img44)\<rparr>))
     = Inr [\<lparr>width = 2, cells = [[12, 13], [8, 9]]\<rparr>]"
  "assign [zeros 2 2] 0 (slice2 0 2 0 2 (msk44\<lparr>cells := rev (cells msk44)\<rparr>))
     = Inr [\<lparr>width = 2, cells = [[22, 23], [18, 19]]\<rparr>]"
  by code_simp+

lemma window_train: "batch_window loader_train 0 = [0]"
  by code_simp

lemma getitem_plain:
  "getitem flip_effect loader_train 0 (sconst 0)
     = Inr (([add_axis \<lparr>width = 2, cells = [[0, 1], [4, 5]]\<rparr>],
             [add_axis \<lparr>width = 2, cells = [[10, 11], [14, 15]]\<rparr>]), sconst 0)"
  unfolding getitem_def window_train
  by (rule getbatch_one [OF loader_train_fields(7,8) sample_plain assign_plain])

lemma getitem_flipped:
  "getitem flip_effect
     (loader_train\<lparr>aug := [GridDistortion 3 1, ElasticTransform 1, CLAHE 1]\<rparr>) 0 (sconst 0)
     = Inr (([add_axis \<lparr>width = 2, cells = [[12, 13], [8, 9]]\<rparr>],
             [add_axis \<lparr>width = 2, cells = [[22, 23], [18, 19]]\<rparr>]), sconst 0)"
proof -
  let ?t = "loader_train\<lparr>aug := [GridDistortion 3 1, ElasticTransform 1, CLAHE 1]\<rparr>"
  have w: "batch_window ?t 0 = [0]"
    using window_train by (simp add: batch_window_def)
  have f: "batch_size ?t = 1" "input_size ?t = (2, 2)"
    by (simp_all add: loader_train_fields)
  show ?thesis
    unfolding getitem_def w
    by (rule getbatch_one [OF f sample_flipped assign_flipped])
qed

text \<open>
  The claim as written fails: with a transform effect that reverses the rows and a
  generator whose every trial succeeds at probability 1, the batch drawn after
  \<open>set_params(1, 1, 1)\<close> alone is the unaugmented crop, not the crop of the reversed
  arrays that the pipeline of the new probabilities yields.
\<close>

theorem set_params_alone_counterexample:
  "getitem flip_effect (set_params loader_train 1 1 1) 0 (sconst 0)
     = Inr (([add_axis \<lparr>width = 2, cells = [[0, 1], [4, 5]]\<rparr>],
             [add_axis \<lparr>width = 2, cells = [[10, 11], [14, 15]]\<rparr>]), sconst 0)
   \<and> getitem flip_effect
        (loader_train\<lparr>aug := [GridDistortion 3 1, ElasticTransform 1, CLAHE 1]\<rparr>) 0 (sconst 0)
     = Inr (([add_axis \<lparr>width = 2, cells = [[12, 13], [8, 9]]\<rparr>],
             [add_axis \<lparr>width = 2, cells = [[22, 23], [18, 19]]\<rparr>]), sconst 0)
   \<and> getitem flip_effect (set_params loader_train 1 1 1) 0 (sconst 0)
     \<noteq> getitem flip_effect
        (loader_train\<lparr>aug := [GridDistortion 3 1, ElasticTransform 1, CLAHE 1]\<rparr>) 0 (sconst 0)"
proof -
  have "getitem flip_effect (set_params loader_train 1 1 1) 0 (sconst 0)
      = getitem flip_effect loader_train 0 (sconst 0)"
    by (rule getitem_cong) (simp_all add: set_params_def)
  then show ?thesis
    by (simp add: getitem_plain getitem_flipped add_axis_def)
qed

theorem set_params_needs_get_augmentation_witness:
  "getitem flip_effect (get_augmentation (set_params loader_train 1 1 1)) 0 (sconst 0)
     = Inr (([add_axis \<lparr>width = 2, cells = [[12, 13], [8, 9]]\<rparr>],
             [add_axis \<lparr>width = 2, cells = [[22, 23], [18, 19]]\<rparr>]), sconst 0)
   \<and> getitem flip_effect (set_params loader_train 1 1 1) 0 (sconst 0)
     = Inr (([add_axis \<lparr>width = 2, cells = [[0, 1], [4, 5]]\<rparr>],
             [add_axis \<lparr>width = 2, cells = [[10, 11], [14, 15]]\<rparr>]), sconst 0)"
  using set_params_needs_get_augmentation [of loader_train 1 1 1 flip_effect 0 "sconst 0"]
  by (simp add: getitem_plain getitem_flipped)

section \<open>Construction and the two file lists\<close>

lemma load_list_readable:
  assumes "\<forall>f \<in> set fs. keep f \<longrightarrow> (\<exists>a. snd f = Npy a)"
  shows "\<exists>as. load_list keep fs = Inr as \<and> length as = length (filter keep fs)"
  using assms
proof (induction fs)
  case Nil
  then show ?case by simp
next
  case (Cons f fs)
  then obtain as where as: "load_list keep fs = Inr as" "length as = length (filter keep fs)"
    by auto
  show ?case
  proof (cases "keep f")
    case True
    with Cons.prems obtain a where "snd f = Npy a" by auto
    with True as show ?thesis by (simp add: np_load_def)
  next
    case False
    with as show ?thesis by simp
  qed
qed

lemma length_filter_sort_key:
  "length (filter P (sort_key k xs)) = length (filter P xs)"
proof -
  have "mset (filter P (sort_key k xs)) = mset (filter P xs)"
    by (simp only: mset_filter mset_sort)
  then show ?thesis by (metis size_mset)
qed

lemma on_epoch_end_store:
  "ldct (fst (on_epoch_end s g)) = ldct s \<and> ndct (fst (on_epoch_end s g)) = ndct s"
  by (simp add: on_epoch_end_def split: prod.splits)

text \<open>
  Claim C3, as the code has it. Construction compares the two file lists nowhere. With a
  legal mode, an integer patch size and every selected file readable, it succeeds
  whatever the two counts are, and the loader holds as many sources as there are
  selected \<open>*_ldct.npy\<close> files and as many targets as there are selected \<open>*_ndct.npy\<close>
  files.
\<close>

theorem init_no_alignment_check:
  assumes "md \<in> set [''train'', ''valid'', ''test'']"
    and "\<forall>f \<in> set dir. selected md valid_p test_p f \<longrightarrow> (\<exists>a. snd f = Npy a)"
  shows "\<exists>s g1. init md path dir valid_p test_p bsize pair (Some p) g = Inr (s, g1)
           \<and> length (ldct s)
               = length (filter (selected md valid_p test_p) (glob ''_ldct.npy'' dir))
           \<and> length (ndct s)
               = length (filter (selected md valid_p test_p) (glob ''_ndct.npy'' dir))"
proof -
  let ?keep = "selected md valid_p test_p"
  let ?lp = "sort_key fst (glob ''_ldct.npy'' dir)"
  let ?np = "sort_key fst (glob ''_ndct.npy'' dir)"
  have "\<forall>f \<in> set ?lp. ?keep f \<longrightarrow> (\<exists>a. snd f = Npy a)"
    using assms(2) by (simp add: glob_def)
  then obtain ls where ls: "load_list ?keep ?lp = Inr ls"
      "length ls = length (filter ?keep ?lp)"
    using load_list_readable by blast
  have "\<forall>f \<in> set ?np. ?keep f \<longrightarrow> (\<exists>a. snd f = Npy a)"
    using assms(2) by (simp add: glob_def)
  then obtain ns where ns: "load_list ?keep ?np = Inr ns"
      "length ns = length (filter ?keep ?np)"
    using load_list_readable by blast
  have ld: "load md valid_p test_p ?lp ?np = Inr (ls, ns)"
    by (simp add: load_def ls(1) ns(1))
  define s0 where "s0 = \<lparr>mode = md, data_path = path, valid_patient = valid_p,
      test_patient = test_p, batch_size = bsize, train_pair = pair,
      patch_size = Some p, ldct = ls, ndct = ns, input_size = (p, p),
      indexes = map int [0..<length ls],
      prob_distort = 0, prob_elastic = 0, prob_histeq = 0, aug = []\<rparr>"
  have i: "init md path dir valid_p test_p bsize pair (Some p) g
             = Inr (get_augmentation (set_params (fst (on_epoch_end s0 g)) 0 0 0),
                    snd (on_epoch_end s0 g))"
    using assms(1) unfolding init_def Let_def ld s0_def
    by (simp add: case_prod_beta)
  have "ldct (get_augmentation (set_params (fst (on_epoch_end s0 g)) 0 0 0)) = ls"
    using on_epoch_end_store [of s0 g]
    by (simp add: get_augmentation_def set_params_def s0_def)
  moreover have "ndct (get_augmentation (set_params (fst (on_epoch_end s0 g)) 0 0 0)) = ns"
    using on_epoch_end_store [of s0 g]
    by (simp add: get_augmentation_def set_params_def s0_def)
  ultimately show ?thesis
    using i ls(2) ns(2) by (simp add: length_filter_sort_key)
qed

lemma init_unaligned:
  "init ''valid'' ''./prep/'' dir_unaligned ''L333'' ''L506'' 8 True (Some 2) g
     = Inr ((mk_loader ''valid'' 8 True 2 [img22, img44] [msk44]), g)"
  by code_simp

text \<open>
  The claim as written fails: over a directory with two selected source files and one
  selected target file, construction in \<open>valid\<close> mode succeeds, with a loader of two
  sources and one target.
\<close>

theorem init_unaligned_counterexample:
  "init ''valid'' ''./prep/'' dir_unaligned ''L333'' ''L506'' 8 True (Some 2) (sconst 0)
     = Inr (mk_loader ''valid'' 8 True 2 [img22, img44] [msk44], sconst 0)
   \<and> length (ldct (mk_loader ''valid'' 8 True 2 [img22, img44] [msk44])) = 2
   \<and> length (ndct (mk_loader ''valid'' 8 True 2 [img22, img44] [msk44])) = 1
   \<and> length (filter (selected ''valid'' ''L333'' ''L506'') (glob ''_ldct.npy'' dir_unaligned))
       \<noteq> length (filter (selected ''valid'' ''L333'' ''L506'') (glob ''_ndct.npy'' dir_unaligned))"
proof -
  have "length (ldct (mk_loader ''valid'' 8 True 2 [img22, img44] [msk44])) = 2"
    by code_simp
  moreover have "length (ndct (mk_loader ''valid'' 8 True 2 [img22, img44] [msk44])) = 1"
    by code_simp
  moreover have
    "length (filter (selected ''valid'' ''L333'' ''L506'') (glob ''_ldct.npy'' dir_unaligned))
       \<noteq> length (filter (selected ''valid'' ''L333'' ''L506'') (glob ''_ndct.npy'' dir_unaligned))"
    by code_simp
  ultimately show ?thesis
    using init_unaligned [of "sconst 0"] by simp
qed

lemma dir_unaligned_no_failure:
  "filter (\<lambda>f. selected ''valid'' ''L333'' ''L506'' f
             \<and> (case snd f of Npy a \<Rightarrow> False | Unreadable e \<Rightarrow> True))
     dir_unaligned = []"
  by code_simp

lemma dir_unaligned_readable:
  "\<forall>f \<in> set dir_unaligned. selected ''valid'' ''L333'' ''L506'' f \<longrightarrow> (\<exists>a. snd f = Npy a)"
proof (intro ballI impI)
  fix f :: "int path"
  assume f: "f \<in> set dir_unaligned" and k: "selected ''valid'' ''L333'' ''L506'' f"
  have "\<not> (selected ''valid'' ''L333'' ''L506'' f
            \<and> (case snd f of Npy a \<Rightarrow> False | Unreadable e \<Rightarrow> True))"
    using dir_unaligned_no_failure f unfolding filter_empty_conv by blast
  then show "\<exists>a. snd f = Npy a"
    using k by (cases "snd f") simp_all
qed

lemma dir_unaligned_counts:
  "length (filter (selected ''valid'' ''L333'' ''L506'') (glob ''_ldct.npy'' dir_unaligned)) = 2
   \<and> length (filter (selected ''valid'' ''L333'' ''L506'') (glob ''_ndct.npy'' dir_unaligned)) = 1"
  by code_simp

theorem init_no_alignment_check_witness:
  "''valid'' \<in> set [''train'', ''valid'', ''test'']
   \<and> filter (\<lambda>f. selected ''valid'' ''L333'' ''L506'' f
                    \<and> (case snd f of Npy a \<Rightarrow> False | Unreadable e \<Rightarrow> True))
        dir_unaligned = []
   \<and> (\<exists>s g1. init ''valid'' ''./prep/'' dir_unaligned ''L333'' ''L506'' 8 True (Some 2) (sconst 0)
                = Inr (s, g1)
          \<and> length (ldct s) = 2 \<and> length (ndct s) = 1)"
  using init_no_alignment_check [of "''valid''" dir_unaligned "''L333''" "''L506''"
      "''./prep/''" 8 True 2 "sconst 0"]
    dir_unaligned_readable dir_unaligned_counts dir_unaligned_no_failure
  by simp

text \<open>
  When construction fails, it is on the mode assertion, with the exception that
  \<open>np.load\<close> raises on a selected file, or on \<open>self.ldct[0]\<close> over an empty source list
  when no patch size is given.
\<close>

lemma load_list_error:
  "load_list keep fs = Inl e \<Longrightarrow> \<exists>f \<in> set fs. keep f \<and> snd f = Unreadable e"
proof (induction fs)
  case Nil
  then show ?case by simp
next
  case (Cons f fs)
  then show ?case
    by (auto simp: np_load_def split: if_splits sum.splits npy_file.splits)
qed

lemma load_error:
  assumes "load md valid_p test_p lp np = Inl e"
  shows "\<exists>f \<in> set lp \<union> set np. selected md valid_p test_p f \<and> snd f = Unreadable e"
proof (cases "load_list (selected md valid_p test_p) lp")
  case (Inl e1)
  then have "e1 = e"
    using assms by (simp add: load_def)
  then show ?thesis
    using load_list_error [OF Inl] by auto
next
  case (Inr ls)
  then have "load_list (selected md valid_p test_p) np = Inl e"
    using assms by (simp add: load_def split: sum.splits)
  then show ?thesis
    using load_list_error by fastforce
qed

lemma init_error:
  assumes "init md path dir valid_p test_p bsize pair patch g = Inl e"
  shows "e = AssertionError \<or> e = IndexError
         \<or> (\<exists>f \<in> set dir. selected md valid_p test_p f \<and> snd f = Unreadable e)"
proof (cases "md \<in> set [''train'', ''valid'', ''test'']")
  case False
  then show ?thesis
    using assms by (simp add: init_def)
next
  case True
  let ?lp = "sort_key fst (glob ''_ldct.npy'' dir)"
  let ?np = "sort_key fst (glob ''_ndct.npy'' dir)"
  show ?thesis
  proof (cases "load md valid_p test_p ?lp ?np")
    case (Inl e1)
    then have "e1 = e"
      using assms True by (auto simp: init_def Let_def)
    then obtain f where "f \<in> set ?lp \<union> set ?np" "selected md valid_p test_p f"
        "snd f = Unreadable e"
      using load_error [OF Inl] by blast
    moreover have "set ?lp \<union> set ?np \<subseteq> set dir"
      by (auto simp: glob_def)
    ultimately show ?thesis by blast
  next
    case (Inr r)
    then show ?thesis
      using assms True
      by (auto simp: init_def Let_def py_get_def split: if_splits sum.splits prod.splits
          option.splits)
  qed
qed

end
